theory Spec2Isabelle
  imports Complex_Main "HOL-Library.Product_Lexorder"
begin

section \<open>Data model\<close>

text \<open>
  The fragments produced by \<^verbatim>\<open>extract_text_blocks\<close> are Python dictionaries with the
  keys \<^verbatim>\<open>text\<close>, \<^verbatim>\<open>font_size\<close>, \<^verbatim>\<open>font_name\<close>, \<^verbatim>\<open>page\<close> and \<^verbatim>\<open>y_pos\<close>.
  Font sizes and vertical positions are numbers, modelled as reals with exact arithmetic;
  pages are the 1-based page numbers \<^verbatim>\<open>page_num + 1\<close>. A text is a \<open>string\<close> whose
  characters stand for the code points below 256, classified as Python classifies them.
\<close>

record fragment =
  f_text :: string
  font_size :: real
  font_name :: string
  page :: nat
  y_pos :: real

datatype py_error = StatisticsError | IndexError | ValueError

section \<open>Body text style: \<^verbatim>\<open>get_body_text_style\<close>\<close>

text \<open>
  \<^verbatim>\<open>Counter(sizes)\<close> is a dictionary in insertion order: a key seen again has its count
  raised in place, a new key is appended.
\<close>

fun counter_add :: "'a \<Rightarrow> ('a \<times> nat) list \<Rightarrow> ('a \<times> nat) list" where
  "counter_add x [] = [(x, 1)]"
| "counter_add x ((k, n) # kvs) =
     (if k = x then (k, Suc n) # kvs else (k, n) # counter_add x kvs)"

definition Counter :: "'a list \<Rightarrow> ('a \<times> nat) list" where
  "Counter xs = foldl (\<lambda>c x. counter_add x c) [] xs"

text \<open>
  \<^verbatim>\<open>max(items, key=itemgetter(1))\<close>: the running maximum is replaced only by a strictly
  greater count, so the first item of maximal count wins.
\<close>

fun max_loop :: "('a \<times> nat) \<Rightarrow> ('a \<times> nat) list \<Rightarrow> ('a \<times> nat)" where
  "max_loop m [] = m"
| "max_loop m (x # xs) = max_loop (if snd m < snd x then x else m) xs"

definition most_common1 :: "('a \<times> nat) list \<Rightarrow> ('a \<times> nat) list" where
  "most_common1 items = (case items of [] \<Rightarrow> [] | x # xs \<Rightarrow> [max_loop x xs])"

text \<open>
  \<^verbatim>\<open>statistics.mode\<close>. From Python 3.8 on it returns the first of the most common values
  and raises only on empty data. Before 3.8 it also raised \<^verbatim>\<open>StatisticsError\<close> when more
  than one value had the highest count; \<open>unique_only\<close> selects that older behaviour.
\<close>

definition statistics_mode :: "bool \<Rightarrow> 'a list \<Rightarrow> py_error + 'a" where
  "statistics_mode unique_only data =
     (case most_common1 (Counter data) of
        [] \<Rightarrow> Inl StatisticsError
      | p # _ \<Rightarrow>
          if unique_only \<and> 1 < length (filter (\<lambda>q. snd q = snd p) (Counter data))
          then Inl StatisticsError
          else Inr (fst p))"

text \<open>
  \<^verbatim>\<open>sorted(items, key=lambda x: x[1], reverse=True)\<close>: a stable sort by descending count,
  items of equal count keeping their order.
\<close>

definition sorted_by_count_desc :: "('a \<times> nat) list \<Rightarrow> ('a \<times> nat) list" where
  "sorted_by_count_desc items = sort_key (\<lambda>x. - int (snd x)) items"

definition get_body_text_style :: "bool \<Rightarrow> fragment list \<Rightarrow> py_error + (real \<times> string)" where
  "get_body_text_style unique_only blocks =
     (if blocks = [] then Inr (12, '''')
      else
        let sizes = map font_size (filter (\<lambda>b. font_size b < 20) blocks);
            sizes = (if sizes \<noteq> [] then sizes else map font_size blocks)
        in case statistics_mode unique_only sizes of
             Inr body_size \<Rightarrow> Inr (body_size, '''')
           | Inl StatisticsError \<Rightarrow>
               (case sorted_by_count_desc (Counter sizes) of
                  [] \<Rightarrow> Inl IndexError
                | p # _ \<Rightarrow> Inr (fst p, ''''))
           | Inl e \<Rightarrow> Inl e)"

text \<open>
  The value the specification describes: the first element, in list order, whose number
  of occurrences is not exceeded by that of any other element.
\<close>

definition most_frequent_first :: "'a list \<Rightarrow> 'a option" where
  "most_frequent_first xs =
     find (\<lambda>x. \<forall>y \<in> set xs. count_list xs y \<le> count_list xs x) xs"

definition body_sizes :: "fragment list \<Rightarrow> real list" where
  "body_sizes blocks =
     (let small = map font_size (filter (\<lambda>b. font_size b < 20) blocks)
      in if small = [] then map font_size blocks else small)"

section \<open>Characters and strings as Python sees them\<close>

text \<open>
  The classes below are Python's on the code points 0 to 255: \<^verbatim>\<open>str.isspace\<close> (also used
  by \<^verbatim>\<open>split\<close>, \<^verbatim>\<open>strip\<close> and the pattern class \<^verbatim>\<open>\s\<close>), the decimal digits of \<^verbatim>\<open>\d\<close>,
  the range \<^verbatim>\<open>[A-Z]\<close>, and the upper and lower case letters of \<^verbatim>\<open>isupper\<close> and \<^verbatim>\<open>lower\<close>.
\<close>

definition code :: "char \<Rightarrow> nat" where
  "code c = of_char c"

definition is_space :: "char \<Rightarrow> bool" where
  "is_space c = (code c \<in> {9, 10, 11, 12, 13, 28, 29, 30, 31, 32, 133, 160})"

definition is_digit :: "char \<Rightarrow> bool" where
  "is_digit c = (48 \<le> code c \<and> code c \<le> 57)"

definition is_A_Z :: "char \<Rightarrow> bool" where
  "is_A_Z c = (65 \<le> code c \<and> code c \<le> 90)"

definition is_dot :: "char \<Rightarrow> bool" where
  "is_dot c = (c = CHR ''.'')"

definition is_upper :: "char \<Rightarrow> bool" where
  "is_upper c = ((65 \<le> code c \<and> code c \<le> 90) \<or> (192 \<le> code c \<and> code c \<le> 214)
                 \<or> (216 \<le> code c \<and> code c \<le> 222))"

definition is_lower :: "char \<Rightarrow> bool" where
  "is_lower c = ((97 \<le> code c \<and> code c \<le> 122) \<or> code c = 170 \<or> code c = 181
                 \<or> code c = 186 \<or> (223 \<le> code c \<and> code c \<le> 246)
                 \<or> (248 \<le> code c \<and> code c \<le> 255))"

definition lower_char :: "char \<Rightarrow> char" where
  "lower_char c = (if is_upper c then char_of (code c + 32) else c)"

definition lower :: "string \<Rightarrow> string" where
  "lower s = map lower_char s"

text \<open>\<^verbatim>\<open>text.isupper()\<close>: no lower case character and at least one upper case one.\<close>

definition isupper :: "string \<Rightarrow> bool" where
  "isupper s = (list_all (\<lambda>c. \<not> is_lower c) s \<and> list_ex is_upper s)"

text \<open>\<^verbatim>\<open>text.split()\<close>: the maximal runs of characters that are not whitespace.\<close>

fun split_from :: "string \<Rightarrow> string \<Rightarrow> string list" where
  "split_from w [] = (if w = [] then [] else [w])"
| "split_from w (c # cs) =
     (if is_space c then (if w = [] then split_from [] cs else w # split_from [] cs)
      else split_from (w @ [c]) cs)"

definition split :: "string \<Rightarrow> string list" where
  "split s = split_from [] s"

text \<open>\<^verbatim>\<open>text.strip()\<close>.\<close>

definition strip :: "string \<Rightarrow> string" where
  "strip s = rev (dropWhile is_space (rev (dropWhile is_space s)))"

text \<open>\<^verbatim>\<open>sub in s\<close> on strings.\<close>

fun contains :: "string \<Rightarrow> string \<Rightarrow> bool" where
  "contains sub [] = (sub = [])"
| "contains sub (c # cs) = (take (length sub) (c # cs) = sub \<or> contains sub cs)"

text \<open>\<^verbatim>\<open>sep.join(parts)\<close>.\<close>

fun join :: "string \<Rightarrow> string list \<Rightarrow> string" where
  "join sep [] = []"
| "join sep [x] = x"
| "join sep (x # y # ys) = x @ sep @ join sep (y # ys)"

section \<open>The numbering pattern\<close>

text \<open>
  Regular expressions without groups' captures, and \<^verbatim>\<open>pattern.match(text)\<close>: the
  pattern matches when some prefix of the text belongs to its language. The matcher
  follows the derivatives of the expression along the text.
\<close>

datatype rexp =
    Zero
  | One
  | Atom "char \<Rightarrow> bool"
  | Alt rexp rexp
  | Seq rexp rexp
  | Star rexp

definition Plus :: "rexp \<Rightarrow> rexp" where
  "Plus r = Seq r (Star r)"

definition Opt :: "rexp \<Rightarrow> rexp" where
  "Opt r = Alt r One"

fun nullable :: "rexp \<Rightarrow> bool" where
  "nullable Zero = False"
| "nullable One = True"
| "nullable (Atom P) = False"
| "nullable (Alt r s) = (nullable r \<or> nullable s)"
| "nullable (Seq r s) = (nullable r \<and> nullable s)"
| "nullable (Star r) = True"

fun deriv :: "char \<Rightarrow> rexp \<Rightarrow> rexp" where
  "deriv c Zero = Zero"
| "deriv c One = Zero"
| "deriv c (Atom P) = (if P c then One else Zero)"
| "deriv c (Alt r s) = Alt (deriv c r) (deriv c s)"
| "deriv c (Seq r s) =
     (if nullable r then Alt (Seq (deriv c r) s) (deriv c s) else Seq (deriv c r) s)"
| "deriv c (Star r) = Seq (deriv c r) (Star r)"

fun re_match :: "rexp \<Rightarrow> string \<Rightarrow> bool" where
  "re_match r [] = nullable r"
| "re_match r (c # cs) = (nullable r \<or> re_match (deriv c r) cs)"

text \<open>\<^verbatim>\<open>^\s*(\d+(?:\.\d+)*\.?|[A-Z]\.)\s+\<close>\<close>

definition heading_pattern :: rexp where
  "heading_pattern =
     Seq (Star (Atom is_space))
       (Seq (Alt (Seq (Plus (Atom is_digit))
                    (Seq (Star (Seq (Atom is_dot) (Plus (Atom is_digit)))) (Opt (Atom is_dot))))
                 (Seq (Atom is_A_Z) (Atom is_dot)))
            (Plus (Atom is_space)))"

section \<open>Heading classification: \<^verbatim>\<open>identify_and_classify_headings\<close>\<close>

record title_info =
  t_text :: string
  t_page :: nat

record heading =
  level :: string
  h_text :: string
  h_page :: nat
  h_y_pos :: real

text \<open>\<^verbatim>\<open>max(...)\<close> over a generator; it raises \<^verbatim>\<open>ValueError\<close> when there is no item.\<close>

definition py_max :: "real list \<Rightarrow> py_error + real" where
  "py_max xs = (case xs of [] \<Rightarrow> Inl ValueError
                | x # ys \<Rightarrow> Inr (foldl (\<lambda>m y. if m < y then y else m) x ys))"

text \<open>The loop over \<^verbatim>\<open>first_blocks\<close> that stops at the first fragment of the largest size.\<close>

fun title_loop :: "real \<Rightarrow> fragment list \<Rightarrow> title_info option" where
  "title_loop max_font [] = None"
| "title_loop max_font (b # bs) =
     (if font_size b = max_font then Some \<lparr>t_text = f_text b, t_page = 1\<rparr>
      else title_loop max_font bs)"

definition first_blocks :: "fragment list \<Rightarrow> fragment list" where
  "first_blocks blocks = filter (\<lambda>b. page b = 1) blocks"

definition select_title :: "fragment list \<Rightarrow> py_error + title_info option" where
  "select_title blocks =
     (if first_blocks blocks \<noteq> [] then
        (case py_max (map font_size (first_blocks blocks)) of
           Inl e \<Rightarrow> Inl e
         | Inr max_font \<Rightarrow> Inr (title_loop max_font (first_blocks blocks)))
      else Inr None)"

text \<open>The test \<^verbatim>\<open>title_info and b["page"] == 1 and text == title_info["text"]\<close>.\<close>

definition is_title :: "title_info option \<Rightarrow> fragment \<Rightarrow> bool" where
  "is_title ti b = (case ti of None \<Rightarrow> False | Some t \<Rightarrow> page b = 1 \<and> f_text b = t_text t)"

text \<open>The score of one fragment, built up by the five tests in the order of the source.\<close>

definition block_score :: "real \<Rightarrow> fragment \<Rightarrow> int" where
  "block_score body_size b =
     (let text = f_text b;
          fs = font_size b;
          fname = lower (font_name b);
          score = 0;
          score = (if fs > body_size + 1 then score + 2 else score);
          score = (if contains ''bold'' fname then score + 1 else score);
          score = (if re_match heading_pattern text then score + 5 else score);
          score = (if length (split text) < 15 then score + 1 else score);
          score = (if isupper text \<and> length text > 2 then score + 1 else score)
      in score)"

fun candidates_loop ::
  "title_info option \<Rightarrow> real \<Rightarrow> fragment list \<Rightarrow> fragment list \<Rightarrow> fragment list" where
  "candidates_loop ti body_size candidates [] = candidates"
| "candidates_loop ti body_size candidates (b # bs) =
     (if is_title ti b then candidates_loop ti body_size candidates bs
      else if block_score body_size b \<ge> 4
        then candidates_loop ti body_size (candidates @ [b]) bs
        else candidates_loop ti body_size candidates bs)"

text \<open>\<^verbatim>\<open>str(n)\<close> for a natural number, and the level name \<^verbatim>\<open>f"H{i+1}"\<close>.\<close>

fun str_nat :: "nat \<Rightarrow> string" where
  "str_nat n = (if n < 10 then [char_of (48 + n)]
                else str_nat (n div 10) @ [char_of (48 + n mod 10)])"

declare str_nat.simps [simp del]

definition level_name :: "nat \<Rightarrow> string" where
  "level_name i = ''H'' @ str_nat (i + 1)"

text \<open>\<^verbatim>\<open>sorted({c["font_size"] for c in candidates}, reverse=True)\<close>\<close>

definition candidate_sizes :: "fragment list \<Rightarrow> real list" where
  "candidate_sizes candidates = rev (sort (remdups (map font_size candidates)))"

text \<open>The dictionary comprehension over \<^verbatim>\<open>enumerate(sizes[:3])\<close>.\<close>

definition style_map :: "real list \<Rightarrow> (real \<rightharpoonup> string)" where
  "style_map sizes =
     foldl (\<lambda>m (i, size). m(size \<mapsto> level_name i)) Map.empty (enumerate 0 (take 3 sizes))"

fun headings_loop :: "(real \<rightharpoonup> string) \<Rightarrow> heading list \<Rightarrow> fragment list \<Rightarrow> heading list" where
  "headings_loop sm headings [] = headings"
| "headings_loop sm headings (b # bs) =
     (case sm (font_size b) of
        None \<Rightarrow> headings_loop sm headings bs
      | Some lvl \<Rightarrow>
          if lvl \<noteq> [] then
            headings_loop sm
              (headings @ [\<lparr>level = lvl, h_text = f_text b, h_page = page b, h_y_pos = y_pos b\<rparr>]) bs
          else headings_loop sm headings bs)"

definition heading_key :: "heading \<Rightarrow> nat \<times> real" where
  "heading_key h = (h_page h, h_y_pos h)"

definition identify_and_classify_headings ::
  "fragment list \<Rightarrow> real \<Rightarrow> py_error + (heading list \<times> title_info option)" where
  "identify_and_classify_headings blocks body_size =
     (case select_title blocks of
        Inl e \<Rightarrow> Inl e
      | Inr title_info \<Rightarrow>
          let candidates = candidates_loop title_info body_size [] blocks
          in if candidates = [] then Inr ([], title_info)
             else
               let sizes = candidate_sizes candidates;
                   sm = style_map sizes;
                   headings = headings_loop sm [] candidates;
                   headings = sort_key heading_key headings
               in Inr (headings, title_info))"

section \<open>Sections: \<^verbatim>\<open>group_text_into_sections\<close>\<close>

record doc_section =
  heading_text :: string
  heading_level :: string
  s_page :: nat
  s_content :: string

text \<open>
  A section boundary is a page number or a position, or \<^verbatim>\<open>float('inf')\<close>, which every page
  number and every position is below and none is equal to.
\<close>

datatype 'a bound = Fin 'a | Infinity

fun below :: "'a::linorder \<Rightarrow> 'a bound \<Rightarrow> bool" where
  "below x (Fin y) = (x < y)"
| "below x Infinity = True"

fun equals :: "'a \<Rightarrow> 'a bound \<Rightarrow> bool" where
  "equals x (Fin y) = (x = y)"
| "equals x Infinity = False"

definition is_heading :: "heading list \<Rightarrow> fragment \<Rightarrow> bool" where
  "is_heading headings block =
     list_ex (\<lambda>h. h_text h = f_text block \<and> h_page h = page block) headings"

fun content_loop ::
  "heading list \<Rightarrow> nat \<Rightarrow> real \<Rightarrow> nat bound \<Rightarrow> real bound \<Rightarrow> string list \<Rightarrow> fragment list
     \<Rightarrow> string list" where
  "content_loop headings start_page start_y end_page end_y content [] = content"
| "content_loop headings start_page start_y end_page end_y content (block # blocks) =
     (let after_start = (page block > start_page \<or>
                         (page block = start_page \<and> y_pos block > start_y));
          before_end = (below (page block) end_page \<or>
                        (equals (page block) end_page \<and> below (y_pos block) end_y))
      in if after_start \<and> before_end \<and> \<not> is_heading headings block
         then content_loop headings start_page start_y end_page end_y
                (content @ [f_text block]) blocks
         else content_loop headings start_page start_y end_page end_y content blocks)"

definition newline :: string where
  "newline = [CHR 0x0A]"

definition make_section :: "fragment list \<Rightarrow> heading list \<Rightarrow> nat \<times> heading \<Rightarrow> doc_section" where
  "make_section blocks headings ih =
     (let i = fst ih; heading = snd ih;
          start_page = h_page heading;
          start_y = h_y_pos heading;
          end_page = (if i + 1 < length headings then Fin (h_page (headings ! (i + 1)))
                      else Infinity);
          end_y = (if i + 1 < length headings then Fin (h_y_pos (headings ! (i + 1)))
                   else Infinity);
          content = content_loop headings start_page start_y end_page end_y [] blocks
      in \<lparr>heading_text = h_text heading, heading_level = level heading,
          s_page = h_page heading, s_content = join newline content\<rparr>)"

definition group_text_into_sections :: "fragment list \<Rightarrow> heading list \<Rightarrow> doc_section list" where
  "group_text_into_sections blocks headings =
     (if headings = [] then []
      else foldl (\<lambda>sections ih. sections @ [make_section blocks headings ih]) []
             (enumerate 0 headings))"

section \<open>Assembling the result: \<^verbatim>\<open>extract_text_blocks\<close> and \<^verbatim>\<open>generate_outline_from_pdf\<close>\<close>

text \<open>
  What the rendering library hands over: a document is its pages, a page the blocks of
  \<^verbatim>\<open>get_text("dict")\<close>, a block its lines when it has the key \<^verbatim>\<open>lines\<close>, a line its
  spans when it has the key \<^verbatim>\<open>spans\<close>, and a span the text (when present), the size, the
  font and the bounding box.
\<close>

record span =
  sp_text :: "string option"
  sp_size :: real
  sp_font :: string
  sp_bbox :: "real \<times> real \<times> real \<times> real"

type_synonym pdf_line = "span list option"
type_synonym pdf_block = "pdf_line list option"

text \<open>
  Reading a page can fail after the document has been opened: \<^verbatim>\<open>doc[page_num]\<close> and
  \<^verbatim>\<open>page.get_text("dict", flags=11)\<close> raise on, for instance, an encrypted or damaged
  document. A page is therefore either the exception that reading it raises or its blocks.
\<close>

type_synonym pdf_page = "py_error + pdf_block list"
type_synonym pdf_doc = "pdf_page list"

definition span_blocks :: "nat \<Rightarrow> span \<Rightarrow> fragment list" where
  "span_blocks page_num sp =
     (let text = strip (case sp_text sp of None \<Rightarrow> [] | Some t \<Rightarrow> t)
      in if text = [] then []
         else [\<lparr>f_text = text, font_size = sp_size sp, font_name = sp_font sp,
                page = page_num + 1, y_pos = fst (snd (sp_bbox sp))\<rparr>])"

definition or_empty :: "'a list option \<Rightarrow> 'a list" where
  "or_empty v = (case v of None \<Rightarrow> [] | Some xs \<Rightarrow> xs)"

text \<open>The three inner loops, over the blocks, lines and spans of one page.\<close>

definition page_blocks :: "nat \<Rightarrow> pdf_block list \<Rightarrow> fragment list" where
  "page_blocks page_num blocks =
     concat (map (\<lambda>b.
       concat (map (\<lambda>line.
         concat (map (span_blocks page_num) (or_empty line)))
         (or_empty b)))
       blocks)"

text \<open>
  The loop over the page numbers. An exception raised while a page is read leaves the
  function at once, and the fragments collected so far are lost.
\<close>

fun pages_loop :: "pdf_doc \<Rightarrow> fragment list \<Rightarrow> nat list \<Rightarrow> py_error + fragment list" where
  "pages_loop doc blocks_data [] = Inr blocks_data"
| "pages_loop doc blocks_data (page_num # pages) =
     (case doc ! page_num of
        Inl e \<Rightarrow> Inl e
      | Inr blocks \<Rightarrow> pages_loop doc (blocks_data @ page_blocks page_num blocks) pages)"

definition extract_text_blocks :: "pdf_doc \<Rightarrow> nat option \<Rightarrow> py_error + fragment list" where
  "extract_text_blocks doc page_limit =
     (let pages = (case page_limit of None \<Rightarrow> [0..<length doc]
                   | Some l \<Rightarrow> [0..<min (length doc) l])
      in pages_loop doc [] pages)"

record outline_item =
  o_level :: string
  o_text :: string
  o_page :: nat

datatype outline_result =
    Failure string
  | Success string "outline_item list" "doc_section list"

text \<open>
  The body of \<^verbatim>\<open>generate_outline_from_pdf\<close> over the three functions it calls. The argument
  \<open>opened\<close> is what \<^verbatim>\<open>fitz.open\<close> did: \<open>Inl cause\<close> when it raised an exception whose text
  is \<open>cause\<close>, \<open>Inr doc\<close> when it returned a document. Only the call of \<^verbatim>\<open>fitz.open\<close> is
  inside the \<^verbatim>\<open>try\<close>: an exception raised by \<^verbatim>\<open>extract_text_blocks\<close> leaves the function.
\<close>

definition generate_outline_with ::
  "(fragment list \<Rightarrow> py_error + (real \<times> string)) \<Rightarrow>
   (fragment list \<Rightarrow> real \<Rightarrow> py_error + (heading list \<times> title_info option)) \<Rightarrow>
   (fragment list \<Rightarrow> heading list \<Rightarrow> py_error + doc_section list) \<Rightarrow>
   string + pdf_doc \<Rightarrow> py_error + outline_result" where
  "generate_outline_with estimator classifier partitioner opened =
     (case opened of
        Inl e \<Rightarrow> Inr (Failure (''Could not open PDF: '' @ e))
      | Inr doc \<Rightarrow>
          (case extract_text_blocks doc None of
             Inl err \<Rightarrow> Inl err
           | Inr blocks \<Rightarrow>
               if blocks = [] then Inr (Success [] [] [])
               else
                 (case estimator blocks of
                    Inl err \<Rightarrow> Inl err
                  | Inr (body_size, _) \<Rightarrow>
                      (case classifier blocks body_size of
                         Inl err \<Rightarrow> Inl err
                       | Inr (headings, title_info) \<Rightarrow>
                           let title = (case title_info of None \<Rightarrow> ''Untitled''
                                        | Some t \<Rightarrow> t_text t);
                               outline = map (\<lambda>h. \<lparr>o_level = level h, o_text = h_text h,
                                                     o_page = h_page h\<rparr>) headings
                           in (case partitioner blocks headings of
                                 Inl err \<Rightarrow> Inl err
                               | Inr sections \<Rightarrow> Inr (Success title outline sections))))))"

definition generate_outline_from_pdf :: "bool \<Rightarrow> string + pdf_doc \<Rightarrow> py_error + outline_result" where
  "generate_outline_from_pdf unique_only opened =
     generate_outline_with (get_body_text_style unique_only) identify_and_classify_headings
       (\<lambda>blocks headings. Inr (group_text_into_sections blocks headings)) opened"

section \<open>Auxiliary notions of the proofs\<close>

text \<open>A group of digits.\<close>

definition digits :: "string \<Rightarrow> bool" where
  "digits g \<longleftrightarrow> g \<noteq> [] \<and> list_all is_digit g"

text \<open>An item of a counter whose count no other item exceeds.\<close>

definition is_top :: "('a \<times> nat) list \<Rightarrow> ('a \<times> nat) \<Rightarrow> bool" where
  "is_top c p = (\<forall>q \<in> set c. snd q \<le> snd p)"

section \<open>Reading results\<close>

text \<open>The title of a result, when the run produced a result of the success shape.\<close>

fun result_title :: "py_error + outline_result \<Rightarrow> string option" where
  "result_title (Inr (Success title outline sections)) = Some title"
| "result_title _ = None"

section \<open>The sections as the specification describes them\<close>

definition pos :: "fragment \<Rightarrow> nat \<times> real" where
  "pos b = (page b, y_pos b)"

text \<open>
  The fragments of section \<open>i\<close>: those strictly after heading \<open>i\<close>, strictly before
  heading \<open>i + 1\<close> when there is one, and matching no heading in text and page.
\<close>

definition section_blocks :: "fragment list \<Rightarrow> heading list \<Rightarrow> nat \<Rightarrow> fragment list" where
  "section_blocks blocks headings i =
     filter (\<lambda>b. heading_key (headings ! i) < pos b
                \<and> (i + 1 < length headings \<longrightarrow> pos b < heading_key (headings ! (i + 1)))
                \<and> (\<forall>h \<in> set headings. (h_text h, h_page h) \<noteq> (f_text b, page b)))
       blocks"

definition section_of :: "fragment list \<Rightarrow> heading list \<Rightarrow> nat \<Rightarrow> doc_section" where
  "section_of blocks headings i =
     \<lparr>heading_text = h_text (headings ! i), heading_level = level (headings ! i),
      s_page = h_page (headings ! i),
      s_content = join newline (map f_text (section_blocks blocks headings i))\<rparr>"

section \<open>The levels as the specification describes them\<close>

text \<open>
  The level of a size among the descending distinct candidate sizes: the largest is
  \<^verbatim>\<open>H1\<close>, the next \<^verbatim>\<open>H2\<close>, the next \<^verbatim>\<open>H3\<close>.
\<close>

definition level_of :: "real list \<Rightarrow> real \<Rightarrow> string" where
  "level_of sizes s =
     (if s \<in> set (take 1 sizes) then ''H1''
      else if s \<in> set (take 2 sizes) then ''H2'' else ''H3'')"

definition heading_of :: "real list \<Rightarrow> fragment \<Rightarrow> heading" where
  "heading_of sizes c =
     \<lparr>level = level_of sizes (font_size c), h_text = f_text c, h_page = page c,
      h_y_pos = y_pos c\<rparr>"

section \<open>The numbering pattern and the score as the specification describes them\<close>

text \<open>The language of a regular expression.\<close>

fun lang :: "rexp \<Rightarrow> string set" where
  "lang Zero = {}"
| "lang One = {[]}"
| "lang (Atom P) = {[c] |c. P c}"
| "lang (Alt r s) = lang r \<union> lang s"
| "lang (Seq r s) = {u @ v |u v. u \<in> lang r \<and> v \<in> lang s}"
| "lang (Star r) = {concat ws |ws. set ws \<subseteq> lang r}"

text \<open>
  A numbering token: one or more groups of digits separated by dots, with or without a dot
  at the end, or one letter from A to Z followed by a dot.
\<close>

definition enumeration_token :: "string \<Rightarrow> bool" where
  "enumeration_token tok \<longleftrightarrow>
     (\<exists>groups. groups \<noteq> [] \<and> (\<forall>g \<in> set groups. g \<noteq> [] \<and> list_all is_digit g) \<and>
        (tok = join ''.'' groups \<or> tok = join ''.'' groups @ ''.'')) \<or>
     (\<exists>c. is_A_Z c \<and> tok = [c, CHR ''.''])"

text \<open>
  A text with a leading enumeration: optional whitespace, a numbering token, and at least
  one whitespace character, followed by anything.
\<close>

definition leading_enumeration :: "string \<Rightarrow> bool" where
  "leading_enumeration text \<longleftrightarrow>
     (\<exists>ws tok sp rest. text = ws @ tok @ sp @ rest \<and> list_all is_space ws \<and>
        enumeration_token tok \<and> sp \<noteq> [] \<and> list_all is_space sp)"

definition has_substring :: "string \<Rightarrow> string \<Rightarrow> bool" where
  "has_substring sub s \<longleftrightarrow> (\<exists>p q. s = p @ sub @ q)"

text \<open>The score as the sum of the five independent criteria.\<close>

definition criteria_score :: "real \<Rightarrow> fragment \<Rightarrow> int" where
  "criteria_score body_size b =
     (if font_size b > body_size + 1 then 2 else 0)
   + (if has_substring ''bold'' (lower (font_name b)) then 1 else 0)
   + (if leading_enumeration (f_text b) then 5 else 0)
   + (if length (split (f_text b)) < 15 then 1 else 0)
   + (if isupper (f_text b) \<and> length (f_text b) > 2 then 1 else 0)"

section \<open>Example inputs\<close>

definition frag :: "string \<Rightarrow> real \<Rightarrow> string \<Rightarrow> nat \<Rightarrow> real \<Rightarrow> fragment" where
  "frag t s n p y = \<lparr>f_text = t, font_size = s, font_name = n, page = p, y_pos = y\<rparr>"

definition tied_sizes :: "fragment list" where
  "tied_sizes = [frag ''a'' 14 ''F'' 1 10, frag ''b'' 12 ''F'' 1 20, frag ''c'' 12 ''F'' 1 30,
     frag ''d'' 14 ''F'' 1 40, frag ''e'' 30 ''F'' 1 50]"

definition large_sizes :: "fragment list" where
  "large_sizes = [frag ''a'' 22 ''F'' 1 10, frag ''b'' 24 ''F'' 1 20, frag ''c'' 24 ''F'' 1 30]"

definition blank_first_page :: pdf_doc where
  "blank_first_page =
     [Inr [], Inr [Some [Some [\<lparr>sp_text = Some ''Appendix'', sp_size = 12, sp_font = ''F'',
                               sp_bbox = (72, 90, 140, 104)\<rparr>]]]]"

definition three_sizes :: pdf_doc where
  "three_sizes =
     [Inr [Some [Some
        [\<lparr>sp_text = Some ''note'', sp_size = 14, sp_font = ''F'', sp_bbox = (72, 40, 140, 54)\<rparr>,
         \<lparr>sp_text = Some ''Report'', sp_size = 24, sp_font = ''F'',
            sp_bbox = (72, 90, 140, 114)\<rparr>,
         \<lparr>sp_text = Some ''Other'', sp_size = 24, sp_font = ''F'',
            sp_bbox = (72, 120, 140, 144)\<rparr>]]]]"

definition scanned_page :: pdf_doc where
  "scanned_page = [Inr [None]]"


text \<open>A body fragment that repeats the text of a heading on the heading's page.\<close>

definition repeated_text :: "fragment list" where
  "repeated_text = [frag ''Doc Title'' 24 ''F'' 1 10, frag ''INTRO'' 16 ''F-Bold'' 1 50,
     frag ''para'' 12 ''F'' 1 80, frag ''INTRO'' 12 ''F'' 1 120, frag ''tail'' 12 ''F'' 1 150]"

definition two_pages :: "fragment list" where
  "two_pages = [frag ''1. Intro'' 14 ''F'' 1 50, frag ''alpha'' 12 ''F'' 1 80,
     frag ''beta'' 12 ''F'' 2 10, frag ''2. Next'' 14 ''F'' 2 40, frag ''gamma'' 12 ''F'' 2 70]"

definition two_headings :: "heading list" where
  "two_headings = [\<lparr>level = ''H1'', h_text = ''1. Intro'', h_page = 1, h_y_pos = 50\<rparr>,
     \<lparr>level = ''H1'', h_text = ''2. Next'', h_page = 2, h_y_pos = 40\<rparr>]"

definition same_line :: "fragment list" where
  "same_line = [frag ''Doc Title'' 24 ''F'' 1 10, frag ''1. Intro'' 12 ''F'' 1 50,
     frag ''same line'' 12 ''F'' 1 50, frag ''body'' 12 ''F'' 1 80]"

definition four_sizes :: "fragment list" where
  "four_sizes = [frag ''Annual Report'' 30 ''F'' 1 10, frag ''3. Gamma'' 14 ''F'' 2 100,
     frag ''1. Alpha'' 20 ''F'' 1 50, frag ''plain words'' 12 ''F'' 1 120,
     frag ''2. Beta'' 16 ''F'' 1 200, frag ''4. Delta'' 12 ''F'' 2 300]"

definition shouting :: fragment where
  "shouting = frag ''INTRO'' 13 ''Times-Bold'' 2 40"

definition worked_example :: "fragment list" where
  "worked_example = [frag ''Intro'' 14 ''Helvetica'' 1 10,
     frag ''1. Background'' 18 ''Helvetica-Bold'' 1 50,
     frag ''body text here'' 12 ''Helvetica'' 1 80,
     frag ''1.1 Detail'' 16 ''Helvetica-Bold'' 1 120,
     frag ''more body'' 12 ''Helvetica'' 1 150]"

section \<open>Evaluating the model on concrete inputs\<close>

lemma char_of_bits:
  "char_of (n::nat) = Char (odd n) (odd (n div 2)) (odd (n div 4)) (odd (n div 8))
     (odd (n div 16)) (odd (n div 32)) (odd (n div 64)) (odd (n div 128))"
  by (simp add: char_of_def bit_iff_odd)

lemmas string_eval = is_space_def is_digit_def is_A_Z_def is_dot_def is_upper_def is_lower_def
  code_def lower_char_def lower_def isupper_def split_def strip_def heading_pattern_def
  Plus_def Opt_def char_of_bits

lemmas classify_eval = identify_and_classify_headings_def select_title_def first_blocks_def
  py_max_def is_title_def block_score_def candidate_sizes_def style_map_def level_name_def
  str_nat.simps heading_key_def enumerate_eq_zip Let_def

lemmas section_eval = section_of_def section_blocks_def heading_key_def pos_def newline_def

lemmas doc_eval = extract_text_blocks_def page_blocks_def span_blocks_def or_empty_def strip_def is_space_def
  code_def first_blocks_def Let_def

section \<open>The body size is the first most frequent size\<close>

lemma counter_add_keys:
  "map fst (counter_add x c) = (if x \<in> fst ` set c then map fst c else map fst c @ [x])"
  by (induction x c rule: counter_add.induct) (auto simp: image_iff)

lemma counter_add_map_of:
  "map_of (counter_add x c) =
     (map_of c)(x \<mapsto> (case map_of c x of None \<Rightarrow> 1 | Some n \<Rightarrow> Suc n))"
  by (induction x c rule: counter_add.induct) (auto simp: fun_eq_iff)

lemma Counter_snoc: "Counter (xs @ [x]) = counter_add x (Counter xs)"
  by (simp add: Counter_def)

lemma Counter_keys: "map fst (Counter xs) = rev (remdups (rev xs))"
proof (induction xs rule: rev_induct)
  case Nil
  show ?case by (simp add: Counter_def)
next
  case (snoc x xs)
  have "fst ` set (Counter xs) = set xs"
    using snoc by (metis set_map set_remdups set_rev)
  then show ?case using snoc by (simp add: Counter_snoc counter_add_keys)
qed

lemma Counter_map_of:
  "map_of (Counter xs) k = (if k \<in> set xs then Some (count_list xs k) else None)"
proof (induction xs rule: rev_induct)
  case Nil
  show ?case by (simp add: Counter_def)
next
  case (snoc x xs)
  then show ?case by (auto simp: Counter_snoc counter_add_map_of)
qed

lemma Counter_distinct: "distinct (map fst (Counter xs))"
  by (simp add: Counter_keys)

lemma Counter_count: "(k, n) \<in> set (Counter xs) \<Longrightarrow> n = count_list xs k \<and> k \<in> set xs"
  using Counter_map_of [of xs k] Counter_distinct [of xs]
  by (auto split: if_splits)

lemma remdups_snoc: "remdups (ys @ [x]) = filter (\<lambda>y. y \<noteq> x) (remdups ys) @ [x]"
  by (induction ys) auto

lemma find_first_occurrences: "find P (rev (remdups (rev xs))) = find P xs"
proof (induction xs)
  case Nil
  show ?case by simp
next
  case (Cons x xs)
  have "rev (remdups (rev (x # xs))) = x # filter (\<lambda>y. y \<noteq> x) (rev (remdups (rev xs)))"
    by (simp add: remdups_snoc rev_filter)
  moreover have "\<not> P x \<Longrightarrow> find P (filter (\<lambda>y. y \<noteq> x) l) = find P l" for l
    by (induction l) auto
  ultimately show ?case using Cons by simp
qed

lemma ex_top: "xs \<noteq> [] \<Longrightarrow> \<exists>p \<in> set xs. \<forall>q \<in> set xs. snd q \<le> (snd p :: nat)"
proof (induction xs)
  case Nil
  then show ?case by simp
next
  case (Cons x xs)
  show ?case
  proof (cases "xs = []")
    case True
    then show ?thesis by simp
  next
    case False
    then obtain p where p: "p \<in> set xs" "\<forall>q \<in> set xs. snd q \<le> snd p"
      using Cons.IH by blast
    show ?thesis
    proof (cases "snd p \<le> snd x")
      case True
      then show ?thesis using p by (intro bexI [of _ x]) auto
    next
      case False
      then show ?thesis using p by (intro bexI [of _ p]) auto
    qed
  qed
qed

lemma max_loop_find:
  "max_loop m xs =
     (case find (\<lambda>p. snd m < snd p \<and> (\<forall>q \<in> set xs. snd q \<le> snd p)) xs of
        None \<Rightarrow> m | Some p \<Rightarrow> p)"
proof (induction xs arbitrary: m)
  case Nil
  show ?case by simp
next
  case (Cons x xs)
  show ?case
  proof (cases "snd m < snd x")
    case True
    show ?thesis
    proof (cases "\<forall>q \<in> set xs. snd q \<le> snd x")
      case all: True
      have "find (\<lambda>p. snd x < snd p \<and> (\<forall>q \<in> set xs. snd q \<le> snd p)) xs = None"
        using all by (auto simp: find_None_iff)
      then show ?thesis using True all by (simp add: Cons.IH)
    next
      case False
      have "find (\<lambda>p. snd x < snd p \<and> (\<forall>q \<in> set xs. snd q \<le> snd p)) xs
          = find (\<lambda>p. snd m < snd p \<and> (\<forall>q \<in> set (x # xs). snd q \<le> snd p)) xs"
        using False True by (intro find_cong) (auto simp: not_le)
      moreover have "find (\<lambda>p. snd x < snd p \<and> (\<forall>q \<in> set xs. snd q \<le> snd p)) xs \<noteq> None"
      proof -
        from False have "xs \<noteq> []" by auto
        then obtain p where p: "p \<in> set xs" "\<forall>q \<in> set xs. snd q \<le> snd p"
          using ex_top by blast
        with False have "snd x < snd p" by (meson not_le order.strict_trans2)
        with p show ?thesis unfolding find_None_iff by blast
      qed
      ultimately show ?thesis using True False by (auto simp: Cons.IH)
    qed
  next
    case False
    have "find (\<lambda>p. snd m < snd p \<and> (\<forall>q \<in> set xs. snd q \<le> snd p)) xs
        = find (\<lambda>p. snd m < snd p \<and> (\<forall>q \<in> set (x # xs). snd q \<le> snd p)) xs"
      using False by (intro find_cong) auto
    then show ?thesis using False by (simp add: Cons.IH)
  qed
qed

lemma find_SomeD: "find P xs = Some x \<Longrightarrow> P x \<and> x \<in> set xs"
  by (induction xs) (auto split: if_splits)

lemma max_loop_top: "find (is_top (m # xs)) (m # xs) = Some (max_loop m xs)"
proof (cases "\<forall>q \<in> set xs. snd q \<le> snd m")
  case True
  then have "find (\<lambda>p. snd m < snd p \<and> (\<forall>q \<in> set xs. snd q \<le> snd p)) xs = None"
    unfolding find_None_iff by auto
  then show ?thesis using True by (simp add: max_loop_find is_top_def)
next
  case False
  then have ne: "xs \<noteq> []" by auto
  then obtain p where p: "p \<in> set xs" "\<forall>q \<in> set xs. snd q \<le> snd p"
    using ex_top by blast
  with False have mp: "snd m < snd p" by (meson not_le order.strict_trans2)
  have eq: "find (\<lambda>p. snd m < snd p \<and> (\<forall>q \<in> set xs. snd q \<le> snd p)) xs
      = find (is_top (m # xs)) xs"
    using False by (intro find_cong) (auto simp: is_top_def not_le)
  have "is_top (m # xs) p" using p mp by (simp add: is_top_def)
  then have "find (is_top (m # xs)) xs \<noteq> None"
    unfolding find_None_iff using p by blast
  then obtain r where r: "find (is_top (m # xs)) xs = Some r" by auto
  have "\<not> is_top (m # xs) m" using False by (auto simp: is_top_def)
  then show ?thesis using r eq by (simp add: max_loop_find)
qed

lemma hd_insort_key:
  "hd (insort_key f x ys) = (if ys = [] \<or> f x \<le> f (hd ys) then x else hd ys)"
  by (cases ys) auto

lemma sort_key_Nil_iff: "sort_key f xs = [] \<longleftrightarrow> xs = []"
  by (metis length_0_conv length_sort)

lemma sort_head_top:
  "c \<noteq> [] \<Longrightarrow> find (is_top c) c = Some (hd (sort_key (\<lambda>x. - int (snd x)) c))"
proof (induction c)
  case Nil
  then show ?case by simp
next
  case (Cons x xs)
  show ?case
  proof (cases "xs = []")
    case True
    then show ?thesis by (simp add: is_top_def)
  next
    case False
    define h where "h = hd (sort_key (\<lambda>x. - int (snd x)) xs)"
    have h: "find (is_top xs) xs = Some h" using Cons.IH False by (simp add: h_def)
    then have top: "is_top xs h" and hin: "h \<in> set xs" using find_SomeD by fastforce+
    show ?thesis
    proof (cases "snd h \<le> snd x")
      case True
      then have "is_top (x # xs) x" using top by (auto simp: is_top_def)
      then show ?thesis using True False by (simp add: hd_insort_key sort_key_Nil_iff h_def)
    next
      case nle: False
      then have "\<not> is_top (x # xs) x" using hin by (auto simp: is_top_def)
      moreover have "find (is_top (x # xs)) xs = find (is_top xs) xs"
        using nle top hin by (intro find_cong) (auto simp: is_top_def)
      ultimately show ?thesis using nle False h
        by (simp add: hd_insort_key sort_key_Nil_iff h_def)
    qed
  qed
qed

lemma find_map_fst: "find P (map f xs) = map_option f (find (P \<circ> f) xs)"
  by (induction xs) auto

lemma Counter_mem: "y \<in> set xs \<Longrightarrow> (y, count_list xs y) \<in> set (Counter xs)"
  using Counter_map_of [of xs y] by (simp add: map_of_SomeD)

lemma most_frequent_first_Counter:
  assumes "find (is_top (Counter xs)) (Counter xs) = Some p"
  shows "most_frequent_first xs = Some (fst p)"
proof -
  let ?P = "\<lambda>x. \<forall>y \<in> set xs. count_list xs y \<le> count_list xs x"
  have "is_top (Counter xs) q = ?P (fst q)" if "q \<in> set (Counter xs)" for q
  proof -
    have "snd q = count_list xs (fst q)" using that Counter_count [of "fst q" "snd q" xs] by simp
    moreover have "(\<forall>r \<in> set (Counter xs). snd r \<le> n) = (\<forall>y \<in> set xs. count_list xs y \<le> n)" for n
    proof
      assume a: "\<forall>r \<in> set (Counter xs). snd r \<le> n"
      show "\<forall>y \<in> set xs. count_list xs y \<le> n"
      proof
        fix y assume "y \<in> set xs"
        then have "(y, count_list xs y) \<in> set (Counter xs)" by (rule Counter_mem)
        with a show "count_list xs y \<le> n" by fastforce
      qed
    next
      assume a: "\<forall>y \<in> set xs. count_list xs y \<le> n"
      show "\<forall>r \<in> set (Counter xs). snd r \<le> n"
      proof
        fix r assume "r \<in> set (Counter xs)"
        then have "snd r = count_list xs (fst r) \<and> fst r \<in> set xs"
          using Counter_count [of "fst r" "snd r" xs] by simp
        with a show "snd r \<le> n" by simp
      qed
    qed
    ultimately show ?thesis by (simp add: is_top_def)
  qed
  then have "find (is_top (Counter xs)) (Counter xs) = find (?P \<circ> fst) (Counter xs)"
    by (intro find_cong) auto
  with assms have e: "find (?P \<circ> fst) (Counter xs) = Some p" by simp
  have "find ?P (map fst (Counter xs)) = Some (fst p)"
    unfolding find_map_fst e by simp
  then show ?thesis
    by (simp add: most_frequent_first_def Counter_keys find_first_occurrences)
qed

lemma Counter_Nil_iff: "Counter xs = [] \<longleftrightarrow> xs = []"
  by (metis Counter_keys map_is_Nil_conv remdups_eq_nil_iff rev_is_Nil_conv)

lemma statistics_mode_cases:
  assumes "xs \<noteq> []"
  shows "\<exists>m. most_frequent_first xs = Some m \<and>
    (statistics_mode u xs = Inr m \<or> statistics_mode u xs = Inl StatisticsError)"
proof -
  obtain p ps where c: "Counter xs = p # ps"
    using assms Counter_Nil_iff [of xs] by (cases "Counter xs") auto
  have "find (is_top (Counter xs)) (Counter xs) = Some (max_loop p ps)"
    unfolding c by (rule max_loop_top)
  then have "most_frequent_first xs = Some (fst (max_loop p ps))"
    by (rule most_frequent_first_Counter)
  then show ?thesis
    by (simp add: statistics_mode_def most_common1_def c)
qed

lemma fallback_mode:
  assumes "xs \<noteq> []"
  shows "\<exists>p ps. sorted_by_count_desc (Counter xs) = p # ps \<and> most_frequent_first xs = Some (fst p)"
proof -
  have ne: "Counter xs \<noteq> []" using assms by (simp add: Counter_Nil_iff)
  then have "find (is_top (Counter xs)) (Counter xs) = Some (hd (sorted_by_count_desc (Counter xs)))"
    unfolding sorted_by_count_desc_def by (rule sort_head_top)
  then have "most_frequent_first xs = Some (fst (hd (sorted_by_count_desc (Counter xs))))"
    by (rule most_frequent_first_Counter)
  moreover have "sorted_by_count_desc (Counter xs) \<noteq> []"
    using ne by (simp add: sorted_by_count_desc_def sort_key_Nil_iff)
  ultimately show ?thesis by (cases "sorted_by_count_desc (Counter xs)") auto
qed

lemma body_style_nonempty:
  assumes ne: "blocks \<noteq> []"
  shows "\<exists>m. most_frequent_first (body_sizes blocks) = Some m \<and>
         get_body_text_style u blocks = Inr (m, '''')"
proof -
  have bne: "body_sizes blocks \<noteq> []" using ne by (simp add: body_sizes_def Let_def)
  obtain m where m: "most_frequent_first (body_sizes blocks) = Some m"
    "statistics_mode u (body_sizes blocks) = Inr m \<or> statistics_mode u (body_sizes blocks) = Inl StatisticsError"
    using statistics_mode_cases [OF bne] by blast
  obtain p ps where p: "sorted_by_count_desc (Counter (body_sizes blocks)) = p # ps" "fst p = m"
    using fallback_mode [OF bne] m(1) by auto
  have "get_body_text_style u blocks = Inr (m, '''')"
    using ne m(2) p by (auto simp: get_body_text_style_def body_sizes_def Let_def)
  with m(1) show ?thesis by blast
qed

text \<open>
  C4. For the empty fragment list the estimator returns the default 12. For every other
  list it returns the most frequent of the font sizes below 20, or of all font sizes when
  none is below 20; among sizes of equal highest count it returns the one that occurs
  first. This holds whether or not \<^verbatim>\<open>statistics.mode\<close> raises on a tie, and the estimator
  never raises.
\<close>

theorem body_style_first_mode:
  "get_body_text_style unique_only [] = Inr (12, '''') \<and>
   (blocks \<noteq> [] \<longrightarrow>
      (\<exists>m. most_frequent_first (body_sizes blocks) = Some m \<and>
           get_body_text_style unique_only blocks = Inr (m, '''')))"
  using body_style_nonempty [of blocks unique_only]
  by (simp add: get_body_text_style_def)

theorem body_style_first_mode_witness:
  "tied_sizes \<noteq> [] \<and> body_sizes tied_sizes = [14, 12, 12, 14] \<and>
   get_body_text_style True tied_sizes = Inr (14, '''') \<and>
   get_body_text_style False large_sizes = Inr (24, '''')"
proof -
  have a: "tied_sizes \<noteq> []" and b: "large_sizes \<noteq> []"
    by (simp_all add: tied_sizes_def large_sizes_def)
  have s1: "body_sizes tied_sizes = [14, 12, 12, 14]"
    by (simp add: body_sizes_def tied_sizes_def frag_def)
  have s2: "body_sizes large_sizes = [22, 24, 24]"
    by (simp add: body_sizes_def large_sizes_def frag_def)
  have m1: "most_frequent_first [14, 12, 12, 14 :: real] = Some 14"
    by (simp add: most_frequent_first_def)
  have m2: "most_frequent_first [22, 24, 24 :: real] = Some 24"
    by (simp add: most_frequent_first_def)
  from body_style_first_mode [of True tied_sizes] a s1 m1
  have "get_body_text_style True tied_sizes = Inr (14, '''')" by auto
  moreover from body_style_first_mode [of False large_sizes] b s2 m2
  have "get_body_text_style False large_sizes = Inr (24, '''')" by auto
  ultimately show ?thesis using a s1 by simp
qed

lemma most_frequent_first_mem: "most_frequent_first xs = Some m \<Longrightarrow> m \<in> set xs"
  unfolding most_frequent_first_def by (drule find_SomeD) simp

lemma body_sizes_subset: "set (body_sizes blocks) \<subseteq> font_size ` set blocks"
  by (auto simp: body_sizes_def Let_def)

text \<open>
  C10. For every non-empty fragment list the body size is the font size of one of its
  fragments; only the empty list gives the default 12.
\<close>

theorem body_size_is_a_font_size:
  "get_body_text_style unique_only [] = Inr (12, '''') \<and>
   (blocks \<noteq> [] \<longrightarrow>
      (\<exists>b \<in> set blocks. get_body_text_style unique_only blocks = Inr (font_size b, '''')))"
proof -
  have "\<exists>b \<in> set blocks. get_body_text_style unique_only blocks = Inr (font_size b, '''')"
    if ne: "blocks \<noteq> []"
  proof -
    obtain m where m: "most_frequent_first (body_sizes blocks) = Some m"
      "get_body_text_style unique_only blocks = Inr (m, '''')"
      using body_style_nonempty [OF ne] by blast
    from m(1) have "m \<in> set (body_sizes blocks)" by (rule most_frequent_first_mem)
    then have "m \<in> font_size ` set blocks" using body_sizes_subset [of blocks] by (rule subsetD [rotated])
    with m(2) show ?thesis by auto
  qed
  then show ?thesis by (simp add: get_body_text_style_def)
qed

theorem body_size_is_a_font_size_witness:
  "tied_sizes \<noteq> [] \<and>
   (\<exists>b \<in> set tied_sizes. get_body_text_style True tied_sizes = Inr (font_size b, []))"
proof -
  have a: "tied_sizes \<noteq> []" by (simp add: tied_sizes_def)
  from body_size_is_a_font_size [of True tied_sizes] a
  have "\<exists>b \<in> set tied_sizes. get_body_text_style True tied_sizes = Inr (font_size b, [])"
    by (elim conjE impE)
  with a show ?thesis by (rule conjI)
qed

section \<open>Title selection\<close>

lemma py_max_Max: "xs \<noteq> [] \<Longrightarrow> py_max xs = Inr (Max (set xs))"
proof -
  have m: "(\<lambda>m y. if m < y then y else m) = (\<lambda>m y. max y (m::real))"
    by (auto simp: fun_eq_iff max_def)
  have "foldl (\<lambda>m y. if m < y then y else m) x ys = Max (set (x # ys))" for x :: real and ys
    unfolding m Max.set_eq_fold by (simp add: foldl_conv_fold)
  then show "xs \<noteq> [] \<Longrightarrow> py_max xs = Inr (Max (set xs))"
    by (cases xs) (simp_all add: py_max_def)
qed

lemma title_loop_find:
  "title_loop m bs =
     map_option (\<lambda>b. \<lparr>t_text = f_text b, t_page = 1\<rparr>) (find (\<lambda>b. font_size b = m) bs)"
  by (induction bs) auto

lemma find_Max_size:
  assumes "bs \<noteq> []"
  shows "\<exists>b. find (\<lambda>b. font_size b = Max (font_size ` set bs)) bs = Some b"
proof -
  have "Max (font_size ` set bs) \<in> font_size ` set bs"
    using assms by (intro Max_in) auto
  then obtain b where "b \<in> set bs" "font_size b = Max (font_size ` set bs)" by auto
  then have "find (\<lambda>b. font_size b = Max (font_size ` set bs)) bs \<noteq> None"
    unfolding find_None_iff by blast
  then show ?thesis by auto
qed

lemma select_title_cases:
  "(first_blocks blocks = [] \<longrightarrow> select_title blocks = Inr None) \<and>
   (first_blocks blocks \<noteq> [] \<longrightarrow>
      (\<exists>b. find (\<lambda>b. font_size b = Max (font_size ` set (first_blocks blocks)))
              (first_blocks blocks) = Some b \<and>
           select_title blocks = Inr (Some \<lparr>t_text = f_text b, t_page = 1\<rparr>)))"
proof (cases "first_blocks blocks = []")
  case True
  then show ?thesis by (simp add: select_title_def)
next
  case False
  then obtain b where
    b: "find (\<lambda>b. font_size b = Max (font_size ` set (first_blocks blocks)))
              (first_blocks blocks) = Some b"
    using find_Max_size by blast
  have "py_max (map font_size (first_blocks blocks)) = Inr (Max (font_size ` set (first_blocks blocks)))"
    using False by (simp add: py_max_Max)
  then have "select_title blocks = Inr (Some \<lparr>t_text = f_text b, t_page = 1\<rparr>)"
    using False b by (simp add: select_title_def title_loop_find)
  with b False show ?thesis by blast
qed

lemma select_title_total: "\<exists>ti. select_title blocks = Inr ti"
  using select_title_cases [of blocks] by (cases "first_blocks blocks = []") auto

lemma classify_total:
  "select_title blocks = Inr ti \<Longrightarrow>
     \<exists>hs. identify_and_classify_headings blocks body_size = Inr (hs, ti)"
  by (simp add: identify_and_classify_headings_def Let_def)

section \<open>The assembled result\<close>

lemma generate_outline_nonempty:
  assumes "extract_text_blocks doc None = Inr blocks" and "blocks \<noteq> []"
  shows "\<exists>m hs ti. get_body_text_style u blocks = Inr (m, [])
     \<and> select_title blocks = Inr ti
     \<and> identify_and_classify_headings blocks m = Inr (hs, ti)
     \<and> generate_outline_from_pdf u (Inr doc) =
         Inr (Success (case ti of None \<Rightarrow> ''Untitled'' | Some t \<Rightarrow> t_text t)
               (map (\<lambda>h. \<lparr>o_level = level h, o_text = h_text h, o_page = h_page h\<rparr>) hs)
               (group_text_into_sections blocks hs))"
proof -
  obtain m where m: "get_body_text_style u blocks = Inr (m, [])"
    using body_style_nonempty [OF assms(2)] by blast
  obtain ti where ti: "select_title blocks = Inr ti"
    using select_title_total by blast
  obtain hs where hs: "identify_and_classify_headings blocks m = Inr (hs, ti)"
    using classify_total [OF ti] by blast
  have "generate_outline_from_pdf u (Inr doc) =
         Inr (Success (case ti of None \<Rightarrow> ''Untitled'' | Some t \<Rightarrow> t_text t)
               (map (\<lambda>h. \<lparr>o_level = level h, o_text = h_text h, o_page = h_page h\<rparr>) hs)
               (group_text_into_sections blocks hs))"
    using assms m hs
    by (simp add: generate_outline_from_pdf_def generate_outline_with_def Let_def)
  with m ti hs show ?thesis by blast
qed

lemma three_sizes_blocks:
  "extract_text_blocks three_sizes None =
     Inr [frag ''note'' 14 ''F'' 1 40, frag ''Report'' 24 ''F'' 1 90, frag ''Other'' 24 ''F'' 1 120]"
  by (simp add: three_sizes_def frag_def doc_eval upt_rec)

lemma blank_first_page_blocks:
  "extract_text_blocks blank_first_page None = Inr [frag ''Appendix'' 12 ''F'' 2 90]"
  by (simp add: blank_first_page_def frag_def doc_eval upt_rec)

lemma scanned_page_blocks: "extract_text_blocks scanned_page None = Inr []"
  by (simp add: scanned_page_def doc_eval upt_rec)

text \<open>
  C5 (amended). When the fragment list has fragments on page 1, the title is the text of the
  first of them, in stream order, whose font size is the largest on page 1, with page 1.
  When it has none, the title information is absent, and the assembled title is
  \<^verbatim>\<open>Untitled\<close> provided the document has at least one fragment; a document without any
  fragment gets the empty title.
\<close>

theorem title_selection:
  "(first_blocks blocks \<noteq> [] \<longrightarrow>
      (\<exists>b. find (\<lambda>b. font_size b = Max (font_size ` set (first_blocks blocks)))
              (first_blocks blocks) = Some b \<and>
           map_sum id snd (identify_and_classify_headings blocks body_size) =
             Inr (Some \<lparr>t_text = f_text b, t_page = 1\<rparr>))) \<and>
   (first_blocks blocks = [] \<longrightarrow>
      map_sum id snd (identify_and_classify_headings blocks body_size) = Inr None) \<and>
   (extract_text_blocks doc None = Inr blocks \<and> first_blocks blocks = [] \<and> blocks \<noteq> [] \<longrightarrow>
      result_title (generate_outline_from_pdf unique_only (Inr doc)) = Some ''Untitled'') \<and>
   (extract_text_blocks doc None = Inr [] \<longrightarrow>
      result_title (generate_outline_from_pdf unique_only (Inr doc)) = Some [])"
proof (intro conjI impI)
  assume ne: "first_blocks blocks \<noteq> []"
  then obtain b where b:
    "find (\<lambda>b. font_size b = Max (font_size ` set (first_blocks blocks))) (first_blocks blocks) = Some b"
    "select_title blocks = Inr (Some \<lparr>t_text = f_text b, t_page = 1\<rparr>)"
    using select_title_cases [of blocks] by blast
  obtain hs where "identify_and_classify_headings blocks body_size =
      Inr (hs, Some \<lparr>t_text = f_text b, t_page = 1\<rparr>)"
    using classify_total [OF b(2)] by blast
  with b(1) show "\<exists>b. find (\<lambda>b. font_size b = Max (font_size ` set (first_blocks blocks)))
              (first_blocks blocks) = Some b \<and>
           map_sum id snd (identify_and_classify_headings blocks body_size) =
             Inr (Some \<lparr>t_text = f_text b, t_page = 1\<rparr>)"
    by auto
next
  assume "first_blocks blocks = []"
  then have "select_title blocks = Inr None" using select_title_cases [of blocks] by blast
  then obtain hs where "identify_and_classify_headings blocks body_size = Inr (hs, None)"
    using classify_total by blast
  then show "map_sum id snd (identify_and_classify_headings blocks body_size) = Inr None"
    by simp
next
  assume a: "extract_text_blocks doc None = Inr blocks \<and> first_blocks blocks = [] \<and> blocks \<noteq> []"
  then have t: "select_title blocks = Inr None" using select_title_cases [of blocks] by blast
  from a obtain m hs ti where
    "select_title blocks = Inr ti"
    "generate_outline_from_pdf unique_only (Inr doc) =
         Inr (Success (case ti of None \<Rightarrow> ''Untitled'' | Some t \<Rightarrow> t_text t)
               (map (\<lambda>h. \<lparr>o_level = level h, o_text = h_text h, o_page = h_page h\<rparr>) hs)
               (group_text_into_sections blocks hs))"
    using generate_outline_nonempty [of doc blocks unique_only] by blast
  with t show "result_title (generate_outline_from_pdf unique_only (Inr doc)) = Some ''Untitled''"
    by simp
next
  assume "extract_text_blocks doc None = Inr []"
  then show "result_title (generate_outline_from_pdf unique_only (Inr doc)) = Some []"
    by (simp add: generate_outline_from_pdf_def generate_outline_with_def)
qed

theorem title_selection_witness:
  "extract_text_blocks three_sizes None =
     Inr [frag ''note'' 14 ''F'' 1 40, frag ''Report'' 24 ''F'' 1 90, frag ''Other'' 24 ''F'' 1 120] \<and>
   first_blocks [frag ''note'' 14 ''F'' 1 40, frag ''Report'' 24 ''F'' 1 90,
                 frag ''Other'' 24 ''F'' 1 120] \<noteq> [] \<and>
   map_sum id snd (identify_and_classify_headings
       [frag ''note'' 14 ''F'' 1 40, frag ''Report'' 24 ''F'' 1 90, frag ''Other'' 24 ''F'' 1 120] 14) =
     Inr (Some \<lparr>t_text = ''Report'', t_page = 1\<rparr>) \<and>
   extract_text_blocks blank_first_page None = Inr [frag ''Appendix'' 12 ''F'' 2 90] \<and>
   first_blocks [frag ''Appendix'' 12 ''F'' 2 90] = [] \<and>
   result_title (generate_outline_from_pdf True (Inr blank_first_page)) = Some ''Untitled''"
proof -
  let ?bs = "[frag ''note'' 14 ''F'' 1 40, frag ''Report'' 24 ''F'' 1 90, frag ''Other'' 24 ''F'' 1 120]"
  have f: "first_blocks ?bs = ?bs" by (simp add: first_blocks_def frag_def)
  have g: "find (\<lambda>b. font_size b = Max (font_size ` set (first_blocks ?bs))) (first_blocks ?bs) =
      Some (frag ''Report'' 24 ''F'' 1 90)"
    unfolding f by (simp add: frag_def)
  have i: "first_blocks [frag ''Appendix'' 12 ''F'' 2 90] = []"
    by (simp add: first_blocks_def frag_def)
  have j: "[frag ''Appendix'' 12 ''F'' 2 90] \<noteq> []" by simp
  note t1 = title_selection [of ?bs 14 three_sizes True]
  note t2 = title_selection [of "[frag ''Appendix'' 12 ''F'' 2 90]" 12 blank_first_page True]
  from t1 f g have a: "map_sum id snd (identify_and_classify_headings ?bs 14) =
      Inr (Some \<lparr>t_text = ''Report'', t_page = 1\<rparr>)"
    by (auto simp: frag_def)
  from t2 blank_first_page_blocks i j
  have b: "result_title (generate_outline_from_pdf True (Inr blank_first_page)) = Some ''Untitled''"
    by blast
  from a b f i three_sizes_blocks blank_first_page_blocks show ?thesis by simp
qed

text \<open>
  C5 as stated fails on a document without text: it has no fragment on page 1, and the
  assembled title is the empty string, not \<^verbatim>\<open>Untitled\<close>.
\<close>

theorem title_untitled_counterexample:
  "extract_text_blocks scanned_page None = Inr [] \<and>
   first_blocks [] = [] \<and>
   result_title (generate_outline_from_pdf False (Inr scanned_page)) \<noteq> Some ''Untitled''"
  by (simp add: scanned_page_blocks first_blocks_def generate_outline_from_pdf_def
      generate_outline_with_def)




section \<open>Section partitioning\<close>

lemma content_loop_filter:
  "content_loop headings sp sy ep ey acc blocks =
     acc @ map f_text (filter (\<lambda>b.
       (page b > sp \<or> (page b = sp \<and> y_pos b > sy))
       \<and> (below (page b) ep \<or> (equals (page b) ep \<and> below (y_pos b) ey))
       \<and> \<not> is_heading headings b) blocks)"
  by (induction blocks arbitrary: acc) (simp_all add: Let_def)

lemma is_heading_iff:
  "is_heading headings b \<longleftrightarrow> (\<exists>h \<in> set headings. (h_text h, h_page h) = (f_text b, page b))"
  by (auto simp: is_heading_def list_ex_iff)

lemma make_section_eq:
  assumes "i < length headings"
  shows "make_section blocks headings (i, headings ! i) = section_of blocks headings i"
proof -
  have "content_loop headings (h_page (headings ! i)) (h_y_pos (headings ! i))
          (if i + 1 < length headings then Fin (h_page (headings ! (i + 1))) else Infinity)
          (if i + 1 < length headings then Fin (h_y_pos (headings ! (i + 1))) else Infinity)
          [] blocks
        = map f_text (section_blocks blocks headings i)"
    unfolding content_loop_filter section_blocks_def
    by (auto simp: is_heading_iff heading_key_def pos_def intro!: arg_cong [where f = "map f_text"] filter_cong)
  then show ?thesis by (simp add: make_section_def section_of_def Let_def)
qed

lemma foldl_snoc_map: "foldl (\<lambda>acc x. acc @ [f x]) acc0 xs = acc0 @ map f xs"
  by (induction xs arbitrary: acc0) simp_all

lemma group_sections_map:
  "group_text_into_sections blocks headings =
     map (section_of blocks headings) [0..<length headings]"
proof -
  have "map (make_section blocks headings) (enumerate 0 headings)
      = map (section_of blocks headings) [0..<length headings]"
    by (rule nth_equalityI) (simp_all add: nth_enumerate_eq make_section_eq)
  then show ?thesis
    by (simp add: group_text_into_sections_def foldl_snoc_map)
qed

text \<open>
  C3. The partitioner returns one section per heading, in the order of the headings.
  Section \<open>i\<close> carries the text, level and page of heading \<open>i\<close>, and its content is the
  texts, joined by newlines in stream order, of the fragments whose (page, y_pos) is
  strictly after that of heading \<open>i\<close> and strictly before that of heading \<open>i + 1\<close> (no
  upper limit for the last heading), leaving out every fragment whose text and page are
  those of some heading. The empty heading list gives no section.
\<close>

theorem sections_follow_headings:
  "group_text_into_sections blocks headings =
     map (section_of blocks headings) [0..<length headings] \<and>
   length (group_text_into_sections blocks headings) = length headings \<and>
   group_text_into_sections blocks [] = []"
  by (simp add: group_sections_map)

theorem sections_follow_headings_witness:
  "group_text_into_sections two_pages two_headings =
     [\<lparr>heading_text = ''1. Intro'', heading_level = ''H1'', s_page = 1,
        s_content = ''alpha'' @ newline @ ''beta''\<rparr>,
      \<lparr>heading_text = ''2. Next'', heading_level = ''H1'', s_page = 2, s_content = ''gamma''\<rparr>]"
proof -
  have "[0..<length two_headings] = [0, 1]"
    by (simp add: two_headings_def upt_rec)
  with sections_follow_headings [of two_pages two_headings] show ?thesis
    by (simp add: two_pages_def two_headings_def frag_def section_eval)
qed

lemma classify_unfold:
  assumes "identify_and_classify_headings blocks body_size = Inr (hs, ti)"
  shows "select_title blocks = Inr ti \<and>
    hs = sort_key heading_key
        (headings_loop (style_map (candidate_sizes (candidates_loop ti body_size [] blocks))) []
           (candidates_loop ti body_size [] blocks))"
proof -
  obtain t where t: "select_title blocks = Inr t" using select_title_total by blast
  show ?thesis
  proof (cases "candidates_loop t body_size [] blocks = []")
    case True
    with assms t show ?thesis by (auto simp: identify_and_classify_headings_def)
  next
    case False
    with assms t show ?thesis by (auto simp: identify_and_classify_headings_def Let_def)
  qed
qed

lemma classified_sorted:
  assumes "identify_and_classify_headings blocks body_size = Inr (hs, ti)"
  shows "sorted (map heading_key hs)"
  using classify_unfold [OF assms] by simp

lemma windows_disjoint:
  assumes srt: "sorted (map heading_key hs)" and ij: "i < j" "j < length hs"
  shows "set (section_blocks blocks hs i) \<inter> set (section_blocks blocks hs j) = {}"
proof -
  have "False" if bi: "b \<in> set (section_blocks blocks hs i)"
    and bj: "b \<in> set (section_blocks blocks hs j)" for b
  proof -
    from bi ij have "pos b < heading_key (hs ! (i + 1))"
      by (simp add: section_blocks_def)
    moreover have "heading_key (hs ! (i + 1)) \<le> heading_key (hs ! j)"
      using srt ij sorted_nth_mono [of "map heading_key hs" "i + 1" j] by simp
    moreover from bj have "heading_key (hs ! j) < pos b"
      by (simp add: section_blocks_def)
    ultimately show False by simp
  qed
  then show ?thesis by blast
qed

lemma window_exists:
  assumes b: "b \<in> set blocks" and ne: "hs \<noteq> []"
    and first: "heading_key (hd hs) \<le> pos b"
    and nh: "\<not> is_heading hs b"
    and np: "\<forall>h \<in> set hs. heading_key h \<noteq> pos b"
  shows "\<exists>i < length hs. b \<in> set (section_blocks blocks hs i)"
proof -
  let ?P = "\<lambda>h. heading_key h < pos b"
  let ?n = "length (takeWhile ?P hs)"
  have "?P (hd hs)" using first np ne by (cases hs) (auto simp: less_le)
  then have n0: "0 < ?n" using ne by (cases hs) auto
  have nle: "?n \<le> length hs" by (rule length_takeWhile_le)
  have "takeWhile ?P hs ! (?n - 1) \<in> set (takeWhile ?P hs)"
    using n0 by (intro nth_mem) simp
  then have "?P (takeWhile ?P hs ! (?n - 1))" by (rule set_takeWhileD [THEN conjunct2])
  then have before: "heading_key (hs ! (?n - 1)) < pos b"
    using n0 by (simp add: takeWhile_nth)
  have after: "pos b < heading_key (hs ! ?n)" if "?n < length hs"
  proof -
    from that have "\<not> ?P (hs ! ?n)" by (rule nth_length_takeWhile)
    moreover have "heading_key (hs ! ?n) \<noteq> pos b" using np that by simp
    ultimately show ?thesis by (simp add: not_less less_le)
  qed
  have "b \<in> set (section_blocks blocks hs (?n - 1))"
    using b before after n0 nh by (auto simp: section_blocks_def is_heading_iff)
  moreover have "?n - 1 < length hs" using n0 nle by linarith
  ultimately show ?thesis by blast
qed

lemma heading_position_outside:
  assumes srt: "sorted (map heading_key hs)" and i: "i < length hs"
    and h: "h \<in> set hs" "heading_key h = pos b"
  shows "b \<notin> set (section_blocks blocks hs i)"
proof
  assume b: "b \<in> set (section_blocks blocks hs i)"
  from h(1) obtain k where k: "k < length hs" "hs ! k = h" by (auto simp: in_set_conv_nth)
  from b have lo: "heading_key (hs ! i) < pos b" by (simp add: section_blocks_def)
  show False
  proof (cases "k \<le> i")
    case True
    then have "heading_key (hs ! k) \<le> heading_key (hs ! i)"
      using srt i sorted_nth_mono [of "map heading_key hs" k i] by simp
    with lo k(2) h(2) show False by simp
  next
    case False
    then have lt: "i + 1 < length hs" and le: "i + 1 \<le> k" using k(1) by simp_all
    from b lt have "pos b < heading_key (hs ! (i + 1))" by (simp add: section_blocks_def)
    moreover have "heading_key (hs ! (i + 1)) \<le> heading_key (hs ! k)"
      using srt le k(1) sorted_nth_mono [of "map heading_key hs" "i + 1" k] by simp
    ultimately show False using k(2) h(2) by simp
  qed
qed

text \<open>
  C7 (amended). For the heading list derived from a fragment list, when it is not empty:
  the content fragments of two different sections never overlap, each section ends at the
  position where the next one starts, and a fragment at the exact (page, y_pos) of a heading
  is in no section. Every fragment on or after the first heading's position whose text and
  page are not those of a heading is a content fragment of a section, unless it lies at the
  exact (page, y_pos) of some heading. Nothing is stated about a fragment that has the text
  and page of a heading.
\<close>

theorem sections_cover:
  assumes "identify_and_classify_headings blocks body_size = Inr (hs, ti)" and "hs \<noteq> []"
  shows "group_text_into_sections blocks hs = map (section_of blocks hs) [0..<length hs] \<and>
    (\<forall>i j. i < j \<and> j < length hs \<longrightarrow>
       set (section_blocks blocks hs i) \<inter> set (section_blocks blocks hs j) = {}) \<and>
    (\<forall>b i. i < length hs \<and> (\<exists>h \<in> set hs. heading_key h = pos b) \<longrightarrow>
       b \<notin> set (section_blocks blocks hs i)) \<and>
    (\<forall>b \<in> set blocks.
       heading_key (hd hs) \<le> pos b \<and>
       (\<forall>h \<in> set hs. (h_text h, h_page h) \<noteq> (f_text b, page b)) \<longrightarrow>
       (\<exists>h \<in> set hs. heading_key h = pos b) \<or>
       (\<exists>i < length hs. b \<in> set (section_blocks blocks hs i)))"
proof (intro conjI allI impI ballI)
  show "group_text_into_sections blocks hs = map (section_of blocks hs) [0..<length hs]"
    by (rule group_sections_map)
next
  fix i j assume "i < j \<and> j < length hs"
  then show "set (section_blocks blocks hs i) \<inter> set (section_blocks blocks hs j) = {}"
    using windows_disjoint [OF classified_sorted [OF assms(1)]] by blast
next
  fix b i assume "i < length hs \<and> (\<exists>h \<in> set hs. heading_key h = pos b)"
  then show "b \<notin> set (section_blocks blocks hs i)"
    using heading_position_outside [OF classified_sorted [OF assms(1)]] by blast
next
  fix b
  assume b: "b \<in> set blocks"
    and a: "heading_key (hd hs) \<le> pos b \<and>
       (\<forall>h \<in> set hs. (h_text h, h_page h) \<noteq> (f_text b, page b))"
  then have nh: "\<not> is_heading hs b" by (simp add: is_heading_iff)
  show "(\<exists>h \<in> set hs. heading_key h = pos b) \<or>
       (\<exists>i < length hs. b \<in> set (section_blocks blocks hs i))"
    using window_exists [OF b assms(2) _ nh] a by blast
qed

lemma same_line_headings:
  "identify_and_classify_headings same_line 12 =
   Inr ([\<lparr>level = ''H1'', h_text = ''1. Intro'', h_page = 1, h_y_pos = 50\<rparr>],
        Some \<lparr>t_text = ''Doc Title'', t_page = 1\<rparr>)"
  by (simp add: same_line_def frag_def classify_eval string_eval)

theorem sections_cover_witness:
  "identify_and_classify_headings same_line 12 =
     Inr ([\<lparr>level = ''H1'', h_text = ''1. Intro'', h_page = 1, h_y_pos = 50\<rparr>],
          Some \<lparr>t_text = ''Doc Title'', t_page = 1\<rparr>) \<and>
   frag ''body'' 12 ''F'' 1 80 \<in> set same_line \<and>
   frag ''body'' 12 ''F'' 1 80 \<in>
     set (section_blocks same_line
           [\<lparr>level = ''H1'', h_text = ''1. Intro'', h_page = 1, h_y_pos = 50\<rparr>] 0) \<and>
   frag ''same line'' 12 ''F'' 1 50 \<notin>
     set (section_blocks same_line
           [\<lparr>level = ''H1'', h_text = ''1. Intro'', h_page = 1, h_y_pos = 50\<rparr>] 0) \<and>
   group_text_into_sections same_line
       [\<lparr>level = ''H1'', h_text = ''1. Intro'', h_page = 1, h_y_pos = 50\<rparr>] =
     [\<lparr>heading_text = ''1. Intro'', heading_level = ''H1'', s_page = 1, s_content = ''body''\<rparr>]"
proof -
  let ?h = "\<lparr>level = ''H1'', h_text = ''1. Intro'', h_page = 1, h_y_pos = 50\<rparr>"
  let ?b = "frag ''body'' 12 ''F'' 1 80"
  let ?s = "frag ''same line'' 12 ''F'' 1 50"
  have ne: "[?h] \<noteq> []" by simp
  note c = sections_cover [OF same_line_headings ne]
  have m: "?b \<in> set same_line" by (simp add: same_line_def)
  have k: "heading_key (hd [?h]) \<le> pos ?b \<and>
      (\<forall>h \<in> set [?h]. (h_text h, h_page h) \<noteq> (f_text ?b, page ?b))"
    by (simp add: heading_key_def pos_def frag_def)
  have n2: "\<not> (\<exists>h \<in> set [?h]. heading_key h = pos ?b)"
    by (simp add: heading_key_def pos_def frag_def)
  from c m k n2 have "\<exists>i < length [?h]. ?b \<in> set (section_blocks same_line [?h] i)"
    by blast
  then have w: "?b \<in> set (section_blocks same_line [?h] 0)" by simp
  have p: "(0::nat) < length [?h] \<and> (\<exists>h \<in> set [?h]. heading_key h = pos ?s)"
    by (simp add: heading_key_def pos_def frag_def)
  from c p have o: "?s \<notin> set (section_blocks same_line [?h] 0)" by blast
  from c have "group_text_into_sections same_line [?h] = map (section_of same_line [?h]) [0..<length [?h]]"
    by blast
  then have g: "group_text_into_sections same_line [?h] =
     [\<lparr>heading_text = ''1. Intro'', heading_level = ''H1'', s_page = 1, s_content = ''body''\<rparr>]"
    by (simp add: same_line_def frag_def section_eval)
  from same_line_headings m w o g show ?thesis by simp
qed

text \<open>
  C7 as stated fails: a fragment on the same page and at the same height as the first
  heading, with another text, is on or after the first heading's position, is not a
  heading fragment and is in no section.
\<close>

theorem sections_cover_counterexample:
  "get_body_text_style False same_line = Inr (12, []) \<and>
   identify_and_classify_headings same_line 12 =
     Inr ([\<lparr>level = ''H1'', h_text = ''1. Intro'', h_page = 1, h_y_pos = 50\<rparr>],
          Some \<lparr>t_text = ''Doc Title'', t_page = 1\<rparr>) \<and>
   frag ''same line'' 12 ''F'' 1 50 \<in> set same_line \<and>
   heading_key (hd [\<lparr>level = ''H1'', h_text = ''1. Intro'', h_page = 1, h_y_pos = 50\<rparr>])
     \<le> pos (frag ''same line'' 12 ''F'' 1 50) \<and>
   \<not> is_heading [\<lparr>level = ''H1'', h_text = ''1. Intro'', h_page = 1, h_y_pos = 50\<rparr>]
       (frag ''same line'' 12 ''F'' 1 50) \<and>
   frag ''same line'' 12 ''F'' 1 50 \<notin>
     set (section_blocks same_line
           [\<lparr>level = ''H1'', h_text = ''1. Intro'', h_page = 1, h_y_pos = 50\<rparr>] 0) \<and>
   group_text_into_sections same_line
       [\<lparr>level = ''H1'', h_text = ''1. Intro'', h_page = 1, h_y_pos = 50\<rparr>] =
     [\<lparr>heading_text = ''1. Intro'', heading_level = ''H1'', s_page = 1, s_content = ''body''\<rparr>]"
proof -
  have a: "get_body_text_style False same_line = Inr (12, [])"
    by (simp add: same_line_def frag_def get_body_text_style_def statistics_mode_def
        Counter_def most_common1_def)
  have b: "frag ''same line'' 12 ''F'' 1 50 \<notin>
     set (section_blocks same_line
           [\<lparr>level = ''H1'', h_text = ''1. Intro'', h_page = 1, h_y_pos = 50\<rparr>] 0)"
    by (simp add: same_line_def frag_def section_eval)
  have c: "group_text_into_sections same_line
       [\<lparr>level = ''H1'', h_text = ''1. Intro'', h_page = 1, h_y_pos = 50\<rparr>] =
     [\<lparr>heading_text = ''1. Intro'', heading_level = ''H1'', s_page = 1, s_content = ''body''\<rparr>]"
    by (simp add: group_sections_map same_line_def frag_def section_eval)
  from a b c same_line_headings show ?thesis
    by (simp add: same_line_def heading_key_def pos_def frag_def is_heading_def)
qed

text \<open>
  The test of lines 126 and 127 compares text and page only. A body fragment that repeats
  the text of a heading on the heading's page is therefore kept out of every section,
  although it is not a heading and does not lie at a heading's position: here the second
  \<^verbatim>\<open>INTRO\<close>, which scores 2 and is no candidate.
\<close>

lemma repeated_text_left_out:
  "identify_and_classify_headings repeated_text 12 =
     Inr ([\<lparr>level = ''H1'', h_text = ''INTRO'', h_page = 1, h_y_pos = 50\<rparr>],
          Some \<lparr>t_text = ''Doc Title'', t_page = 1\<rparr>) \<and>
   block_score 12 (frag ''INTRO'' 12 ''F'' 1 120) = 2 \<and>
   frag ''INTRO'' 12 ''F'' 1 120 \<notin>
     set (section_blocks repeated_text
           [\<lparr>level = ''H1'', h_text = ''INTRO'', h_page = 1, h_y_pos = 50\<rparr>] 0) \<and>
   group_text_into_sections repeated_text
       [\<lparr>level = ''H1'', h_text = ''INTRO'', h_page = 1, h_y_pos = 50\<rparr>] =
     [\<lparr>heading_text = ''INTRO'', heading_level = ''H1'', s_page = 1,
        s_content = ''para'' @ newline @ ''tail''\<rparr>]"
proof (intro conjI)
  show "identify_and_classify_headings repeated_text 12 =
     Inr ([\<lparr>level = ''H1'', h_text = ''INTRO'', h_page = 1, h_y_pos = 50\<rparr>],
          Some \<lparr>t_text = ''Doc Title'', t_page = 1\<rparr>)"
    by (simp add: repeated_text_def frag_def classify_eval string_eval)
  show "block_score 12 (frag ''INTRO'' 12 ''F'' 1 120) = 2"
    by (simp add: frag_def classify_eval string_eval)
  show "frag ''INTRO'' 12 ''F'' 1 120 \<notin>
     set (section_blocks repeated_text
           [\<lparr>level = ''H1'', h_text = ''INTRO'', h_page = 1, h_y_pos = 50\<rparr>] 0)"
    by (simp add: repeated_text_def frag_def section_eval)
  show "group_text_into_sections repeated_text
       [\<lparr>level = ''H1'', h_text = ''INTRO'', h_page = 1, h_y_pos = 50\<rparr>] =
     [\<lparr>heading_text = ''INTRO'', heading_level = ''H1'', s_page = 1,
        s_content = ''para'' @ newline @ ''tail''\<rparr>]"
    by (simp add: group_sections_map repeated_text_def frag_def section_eval)
qed

section \<open>Candidates and levels\<close>

lemma candidates_loop_filter:
  "candidates_loop ti body_size acc blocks =
     acc @ filter (\<lambda>b. \<not> is_title ti b \<and> 4 \<le> block_score body_size b) blocks"
  by (induction blocks arbitrary: acc) simp_all

lemma headings_loop_filter:
  "headings_loop sm acc cands =
     acc @ concat (map (\<lambda>b. case sm (font_size b) of None \<Rightarrow> []
       | Some lvl \<Rightarrow> if lvl \<noteq> [] then
           [\<lparr>level = lvl, h_text = f_text b, h_page = page b, h_y_pos = y_pos b\<rparr>] else []) cands)"
  by (induction cands arbitrary: acc) (simp_all split: option.splits)

lemma level_names:
  "level_name 0 = ''H1''" "level_name (Suc 0) = ''H2''" "level_name (Suc (Suc 0)) = ''H3''"
  by (simp_all add: level_name_def str_nat.simps char_of_bits)

lemma style_map_level:
  assumes "distinct sizes"
  shows "style_map sizes s = (if s \<in> set (take 3 sizes) then Some (level_of sizes s) else None)"
proof -
  consider "sizes = []" | a where "sizes = [a]" | a b where "sizes = [a, b]"
    | a b c rest where "sizes = a # b # c # rest"
    by (metis list.exhaust)
  then show ?thesis
  proof cases
    case 1
    then show ?thesis by (simp add: style_map_def enumerate_eq_zip)
  next
    case 2
    then show ?thesis
      by (simp add: style_map_def enumerate_eq_zip level_of_def level_names)
  next
    case 3
    then show ?thesis using assms
      by (auto simp: style_map_def enumerate_eq_zip level_of_def level_names upt_rec)
  next
    case 4
    then show ?thesis using assms
      by (auto simp: style_map_def enumerate_eq_zip level_of_def level_names upt_rec
          numeral_3_eq_3 numeral_2_eq_2)
  qed
qed

lemma candidate_sizes_props:
  "distinct (candidate_sizes cands)" "sorted_wrt (\<lambda>x y. y < x) (candidate_sizes cands)"
  "set (candidate_sizes cands) = font_size ` set cands"
proof -
  show "distinct (candidate_sizes cands)" by (simp add: candidate_sizes_def)
  show "set (candidate_sizes cands) = font_size ` set cands" by (simp add: candidate_sizes_def)
  have "sorted_wrt (<) (sort (remdups (map font_size cands)))"
    by (simp add: strict_sorted_iff)
  then show "sorted_wrt (\<lambda>x y. y < x) (candidate_sizes cands)"
    by (simp add: candidate_sizes_def sorted_wrt_rev)
qed

lemma level_of_nonempty: "level_of sizes s \<noteq> []"
  by (simp add: level_of_def)

lemma headings_loop_levels:
  "headings_loop (style_map (candidate_sizes cands)) [] cs =
     map (heading_of (candidate_sizes cands))
       (filter (\<lambda>c. font_size c \<in> set (take 3 (candidate_sizes cands))) cs)"
  unfolding headings_loop_filter
  by (induction cs)
    (simp_all add: style_map_level candidate_sizes_props(1) level_of_nonempty heading_of_def)

lemma classify_headings:
  assumes "identify_and_classify_headings blocks body_size = Inr (hs, ti)"
  shows "hs = sort_key heading_key
     (map (heading_of (candidate_sizes (candidates_loop ti body_size [] blocks)))
        (filter (\<lambda>c. font_size c \<in>
            set (take 3 (candidate_sizes (candidates_loop ti body_size [] blocks))))
          (candidates_loop ti body_size [] blocks)))"
  using classify_unfold [OF assms] by (simp add: headings_loop_levels)

lemma four_sizes_headings:
  "identify_and_classify_headings four_sizes 12 =
     Inr ([\<lparr>level = ''H1'', h_text = ''1. Alpha'', h_page = 1, h_y_pos = 50\<rparr>,
           \<lparr>level = ''H2'', h_text = ''2. Beta'', h_page = 1, h_y_pos = 200\<rparr>,
           \<lparr>level = ''H3'', h_text = ''3. Gamma'', h_page = 2, h_y_pos = 100\<rparr>],
          Some \<lparr>t_text = ''Annual Report'', t_page = 1\<rparr>)"
  by (simp add: four_sizes_def frag_def classify_eval string_eval)

lemma four_sizes_candidates:
  "candidates_loop (Some \<lparr>t_text = ''Annual Report'', t_page = 1\<rparr>) 12 [] four_sizes =
     [frag ''3. Gamma'' 14 ''F'' 2 100, frag ''1. Alpha'' 20 ''F'' 1 50,
      frag ''2. Beta'' 16 ''F'' 1 200, frag ''4. Delta'' 12 ''F'' 2 300]"
  by (simp add: four_sizes_def frag_def classify_eval string_eval)

text \<open>
  C2. Let the classifier return the headings \<open>hs\<close> and the title \<open>ti\<close>, let \<open>cands\<close> be the
  candidates and \<open>sizes\<close> their distinct font sizes in descending order. Then \<open>hs\<close> is the
  list of the candidates whose size is among the first three of \<open>sizes\<close>, each projected to
  level, text, page and position with the level \<^verbatim>\<open>H1\<close>, \<^verbatim>\<open>H2\<close> or \<^verbatim>\<open>H3\<close> of the rank of its
  size, sorted (stably) by page and position. So \<open>hs\<close> is ascending in (page, y_pos), at
  most three levels occur, and a candidate that gives a heading of level \<^verbatim>\<open>H1\<close> is at least
  as large as one that gives a heading of level \<^verbatim>\<open>H2\<close>.
\<close>

theorem levels_and_order:
  assumes "identify_and_classify_headings blocks body_size = Inr (hs, ti)"
    and "cands = candidates_loop ti body_size [] blocks"
    and "sizes = candidate_sizes cands"
  shows "distinct sizes \<and> sorted_wrt (\<lambda>x y. y < x) sizes \<and> set sizes = font_size ` set cands \<and>
    hs = sort_key heading_key
           (map (heading_of sizes) (filter (\<lambda>c. font_size c \<in> set (take 3 sizes)) cands)) \<and>
    sorted (map heading_key hs) \<and>
    level ` set hs \<subseteq> {''H1'', ''H2'', ''H3''} \<and> card (level ` set hs) \<le> 3 \<and>
    (\<forall>c1 \<in> set cands. \<forall>c2 \<in> set cands.
       font_size c1 \<in> set (take 3 sizes) \<and> font_size c2 \<in> set (take 3 sizes) \<and>
       level (heading_of sizes c1) = ''H1'' \<and> level (heading_of sizes c2) = ''H2''
       \<longrightarrow> font_size c2 \<le> font_size c1)"
proof -
  have p: "distinct sizes" "sorted_wrt (\<lambda>x y. y < x) sizes" "set sizes = font_size ` set cands"
    using candidate_sizes_props [of cands] assms(3) by simp_all
  have h: "hs = sort_key heading_key
           (map (heading_of sizes) (filter (\<lambda>c. font_size c \<in> set (take 3 sizes)) cands))"
    using classify_headings [OF assms(1)] assms(2,3) by simp
  have s: "sorted (map heading_key hs)" by (subst h) simp
  have "level (heading_of sizes c) \<in> {''H1'', ''H2'', ''H3''}" for c
    by (simp add: heading_of_def level_of_def)
  then have l: "level ` set hs \<subseteq> {''H1'', ''H2'', ''H3''}"
    by (subst h) auto
  have "card (level ` set hs) \<le> card {''H1'', ''H2'', ''H3''}"
    using l by (intro card_mono) simp_all
  then have c: "card (level ` set hs) \<le> 3" by simp
  have m: "font_size c2 \<le> font_size c1"
    if "level (heading_of sizes c1) = ''H1''" "level (heading_of sizes c2) = ''H2''" for c1 c2
  proof -
    from that(1) have a: "font_size c1 \<in> set (take 1 sizes)"
      by (simp add: heading_of_def level_of_def split: if_splits)
    from that(2) have b: "font_size c2 \<in> set (take 2 sizes)"
      by (simp add: heading_of_def level_of_def split: if_splits)
    show ?thesis
    proof (cases sizes)
      case Nil
      with a show ?thesis by simp
    next
      case (Cons x xs)
      with a b p(2) show ?thesis by (cases xs) auto
    qed
  qed
  from p h s l c m show ?thesis by blast
qed

theorem levels_and_order_witness:
  "identify_and_classify_headings four_sizes 12 =
     Inr ([\<lparr>level = ''H1'', h_text = ''1. Alpha'', h_page = 1, h_y_pos = 50\<rparr>,
           \<lparr>level = ''H2'', h_text = ''2. Beta'', h_page = 1, h_y_pos = 200\<rparr>,
           \<lparr>level = ''H3'', h_text = ''3. Gamma'', h_page = 2, h_y_pos = 100\<rparr>],
          Some \<lparr>t_text = ''Annual Report'', t_page = 1\<rparr>) \<and>
   candidate_sizes (candidates_loop (Some \<lparr>t_text = ''Annual Report'', t_page = 1\<rparr>) 12 []
       four_sizes) = [20, 16, 14, 12] \<and>
   sort_key heading_key
     (map (heading_of [20, 16, 14, 12])
        [frag ''3. Gamma'' 14 ''F'' 2 100, frag ''1. Alpha'' 20 ''F'' 1 50,
         frag ''2. Beta'' 16 ''F'' 1 200]) =
     [\<lparr>level = ''H1'', h_text = ''1. Alpha'', h_page = 1, h_y_pos = 50\<rparr>,
      \<lparr>level = ''H2'', h_text = ''2. Beta'', h_page = 1, h_y_pos = 200\<rparr>,
      \<lparr>level = ''H3'', h_text = ''3. Gamma'', h_page = 2, h_y_pos = 100\<rparr>]"
proof -
  have s: "candidate_sizes (candidates_loop (Some \<lparr>t_text = ''Annual Report'', t_page = 1\<rparr>) 12 []
       four_sizes) = [20, 16, 14, 12]"
    unfolding four_sizes_candidates by (simp add: candidate_sizes_def frag_def)
  have f: "filter (\<lambda>c. font_size c \<in> set (take 3 [20, 16, 14, 12 :: real]))
       [frag ''3. Gamma'' 14 ''F'' 2 100, frag ''1. Alpha'' 20 ''F'' 1 50,
        frag ''2. Beta'' 16 ''F'' 1 200, frag ''4. Delta'' 12 ''F'' 2 300] =
       [frag ''3. Gamma'' 14 ''F'' 2 100, frag ''1. Alpha'' 20 ''F'' 1 50,
        frag ''2. Beta'' 16 ''F'' 1 200]"
    by (simp add: frag_def)
  have s': "candidate_sizes
       [frag ''3. Gamma'' 14 ''F'' 2 100, frag ''1. Alpha'' 20 ''F'' 1 50,
        frag ''2. Beta'' 16 ''F'' 1 200, frag ''4. Delta'' 12 ''F'' 2 300] = [20, 16, 14, 12]"
    using s unfolding four_sizes_candidates .
  note t = levels_and_order [OF four_sizes_headings refl refl,
      unfolded four_sizes_candidates s' f]
  from t have "[\<lparr>level = ''H1'', h_text = ''1. Alpha'', h_page = 1, h_y_pos = 50\<rparr>,
         \<lparr>level = ''H2'', h_text = ''2. Beta'', h_page = 1, h_y_pos = 200\<rparr>,
         \<lparr>level = ''H3'', h_text = ''3. Gamma'', h_page = 2, h_y_pos = 100\<rparr>] =
     sort_key heading_key
       (map (heading_of [20, 16, 14, 12])
          [frag ''3. Gamma'' 14 ''F'' 2 100, frag ''1. Alpha'' 20 ''F'' 1 50,
           frag ''2. Beta'' 16 ''F'' 1 200])"
    by (elim conjE)
  with four_sizes_headings s show ?thesis by simp
qed

lemma score_bound:
  assumes "font_size b \<le> body_size + 1" "\<not> re_match heading_pattern (f_text b)"
  shows "block_score body_size b \<le> 3"
  using assms by (simp add: block_score_def Let_def)

text \<open>
  C9. A fragment whose font size is at most the body size plus 1 and whose text does not
  match the numbering pattern scores at most 3. Hence every candidate, and the fragment
  behind every heading of the output, is larger than the body size plus 1 or matches the
  numbering pattern.
\<close>

theorem candidates_large_or_numbered:
  "(font_size b \<le> body_size + 1 \<and> \<not> re_match heading_pattern (f_text b) \<longrightarrow>
      block_score body_size b \<le> 3) \<and>
   (b \<in> set (candidates_loop ti body_size [] blocks) \<longrightarrow>
      body_size + 1 < font_size b \<or> re_match heading_pattern (f_text b)) \<and>
   (identify_and_classify_headings blocks body_size = Inr (hs, ti') \<and> h \<in> set hs \<longrightarrow>
      (\<exists>c \<in> set blocks. h_text h = f_text c \<and> h_page h = page c \<and> h_y_pos h = y_pos c \<and>
         (body_size + 1 < font_size c \<or> re_match heading_pattern (f_text c))))"
proof (intro conjI impI)
  assume "font_size b \<le> body_size + 1 \<and> \<not> re_match heading_pattern (f_text b)"
  then show "block_score body_size b \<le> 3" using score_bound by blast
next
  assume "b \<in> set (candidates_loop ti body_size [] blocks)"
  then have "4 \<le> block_score body_size b" by (simp add: candidates_loop_filter)
  then show "body_size + 1 < font_size b \<or> re_match heading_pattern (f_text b)"
    using score_bound [of b body_size] by fastforce
next
  assume a: "identify_and_classify_headings blocks body_size = Inr (hs, ti') \<and> h \<in> set hs"
  let ?cands = "candidates_loop ti' body_size [] blocks"
  from a have "h \<in> set (map (heading_of (candidate_sizes ?cands))
        (filter (\<lambda>c. font_size c \<in> set (take 3 (candidate_sizes ?cands))) ?cands))"
    using classify_headings [of blocks body_size hs ti'] by simp
  then obtain c where c: "c \<in> set ?cands" "h = heading_of (candidate_sizes ?cands) c"
    by auto
  from c(1) have "c \<in> set blocks" "4 \<le> block_score body_size c"
    by (simp_all add: candidates_loop_filter)
  then have "c \<in> set blocks \<and> (body_size + 1 < font_size c \<or> re_match heading_pattern (f_text c))"
    using score_bound [of c body_size] by fastforce
  with c(2) show "\<exists>c \<in> set blocks. h_text h = f_text c \<and> h_page h = page c \<and> h_y_pos h = y_pos c \<and>
         (body_size + 1 < font_size c \<or> re_match heading_pattern (f_text c))"
    by (auto simp: heading_of_def)
qed

theorem candidates_large_or_numbered_witness:
  "font_size shouting \<le> 12 + 1 \<and> \<not> re_match heading_pattern (f_text shouting) \<and>
   block_score 12 shouting \<le> 3 \<and> block_score 12 shouting = 3 \<and>
   frag ''4. Delta'' 12 ''F'' 2 300 \<in>
     set (candidates_loop (Some \<lparr>t_text = ''Annual Report'', t_page = 1\<rparr>) 12 [] four_sizes) \<and>
   re_match heading_pattern (f_text (frag ''4. Delta'' 12 ''F'' 2 300)) \<and>
   (\<exists>c \<in> set four_sizes. ''1. Alpha'' = f_text c \<and> 1 = page c \<and> 50 = y_pos c \<and>
       (12 + 1 < font_size c \<or> re_match heading_pattern (f_text c)))"
proof -
  let ?ti = "Some \<lparr>t_text = ''Annual Report'', t_page = 1\<rparr>"
  let ?d = "frag ''4. Delta'' 12 ''F'' 2 300"
  let ?h = "\<lparr>level = ''H1'', h_text = ''1. Alpha'', h_page = 1, h_y_pos = 50\<rparr>"
  let ?hs = "[?h, \<lparr>level = ''H2'', h_text = ''2. Beta'', h_page = 1, h_y_pos = 200\<rparr>,
        \<lparr>level = ''H3'', h_text = ''3. Gamma'', h_page = 2, h_y_pos = 100\<rparr>]"
  have a: "font_size shouting \<le> 12 + 1 \<and> \<not> re_match heading_pattern (f_text shouting)"
    by (simp add: shouting_def frag_def string_eval)
  have b: "block_score 12 shouting = 3"
    by (simp add: shouting_def frag_def classify_eval string_eval)
  have c: "?d \<in> set (candidates_loop ?ti 12 [] four_sizes)"
    unfolding four_sizes_candidates by simp
  have d: "\<not> 12 + 1 < font_size ?d" by (simp add: frag_def)
  have e: "identify_and_classify_headings four_sizes 12 = Inr (?hs, ?ti) \<and> ?h \<in> set ?hs"
    using four_sizes_headings by simp
  note t = candidates_large_or_numbered [of _ 12 ?ti four_sizes ?hs ?ti ?h]
  have f: "block_score 12 shouting \<le> 3"
    by (rule t [of shouting, THEN conjunct1, THEN mp, OF a])
  have "12 + 1 < font_size ?d \<or> re_match heading_pattern (f_text ?d)"
    by (rule t [of ?d, THEN conjunct2, THEN conjunct1, THEN mp, OF c])
  with d have g: "re_match heading_pattern (f_text ?d)" by blast
  have h: "\<exists>c \<in> set four_sizes. h_text ?h = f_text c \<and> h_page ?h = page c \<and>
       h_y_pos ?h = y_pos c \<and> (12 + 1 < font_size c \<or> re_match heading_pattern (f_text c))"
    by (rule t [of ?d, THEN conjunct2, THEN conjunct2, THEN mp, OF e])
  from a b c f g h show ?thesis by simp
qed

section \<open>The matcher and the language of the numbering pattern\<close>

lemma nullable_iff: "nullable r \<longleftrightarrow> [] \<in> lang r"
proof (induction r)
  case (Star r)
  have "\<exists>ws. (\<forall>xs \<in> set ws. xs = []) \<and> set ws \<subseteq> lang r"
    by (rule exI [of _ "[]"]) simp
  then show ?case by simp
qed auto

lemma star_cons:
  "c # w \<in> lang (Star r) \<longleftrightarrow> (\<exists>u v. w = u @ v \<and> c # u \<in> lang r \<and> v \<in> lang (Star r))"
proof
  assume "c # w \<in> lang (Star r)"
  then obtain ws where ws: "c # w = concat ws" "set ws \<subseteq> lang r" by auto
  then show "\<exists>u v. w = u @ v \<and> c # u \<in> lang r \<and> v \<in> lang (Star r)"
  proof (induction ws)
    case Nil
    then show ?case by simp
  next
    case (Cons x xs)
    show ?case
    proof (cases x)
      case Nil
      with Cons show ?thesis by simp
    next
      case (Cons y ys)
      with Cons.prems have "w = ys @ concat xs" "c # ys \<in> lang r" "set xs \<subseteq> lang r" by auto
      then show ?thesis by auto
    qed
  qed
next
  assume "\<exists>u v. w = u @ v \<and> c # u \<in> lang r \<and> v \<in> lang (Star r)"
  then obtain u ws where "w = u @ concat ws" "c # u \<in> lang r" "set ws \<subseteq> lang r" by auto
  then have "c # w = concat ((c # u) # ws) \<and> set ((c # u) # ws) \<subseteq> lang r" by simp
  then show "c # w \<in> lang (Star r)" unfolding lang.simps by blast
qed

lemma deriv_lang: "w \<in> lang (deriv c r) \<longleftrightarrow> c # w \<in> lang r"
proof (induction r arbitrary: w)
  case (Seq r s)
  have "c # w \<in> lang (Seq r s) \<longleftrightarrow>
      ([] \<in> lang r \<and> c # w \<in> lang s) \<or> (\<exists>u v. w = u @ v \<and> c # u \<in> lang r \<and> v \<in> lang s)"
    by (auto simp: Cons_eq_append_conv)
  moreover have "w \<in> lang (Seq (deriv c r) s) \<longleftrightarrow> (\<exists>u v. w = u @ v \<and> c # u \<in> lang r \<and> v \<in> lang s)"
    using Seq.IH(1) by auto
  ultimately show ?case using Seq.IH(2) [of w]
    by (simp add: nullable_iff del: lang.simps(5)) blast
next
  case (Star r)
  have "w \<in> lang (Seq (deriv c r) (Star r)) \<longleftrightarrow>
      (\<exists>u v. w = u @ v \<and> c # u \<in> lang r \<and> v \<in> lang (Star r))"
    using Star.IH by (simp del: lang.simps(6))
  then show ?case by (simp add: star_cons del: lang.simps)
qed auto

lemma re_match_iff: "re_match r s \<longleftrightarrow> (\<exists>p q. s = p @ q \<and> p \<in> lang r)"
proof (induction s arbitrary: r)
  case Nil
  show ?case by (simp add: nullable_iff)
next
  case (Cons c cs)
  have "(\<exists>p q. c # cs = p @ q \<and> p \<in> lang r) \<longleftrightarrow>
      [] \<in> lang r \<or> (\<exists>p q. cs = p @ q \<and> c # p \<in> lang r)"
    by (auto simp: Cons_eq_append_conv)
  then show ?case by (simp add: Cons.IH nullable_iff deriv_lang)
qed

lemma lang_Star_Atom: "lang (Star (Atom P)) = {w. list_all P w}"
proof (intro set_eqI iffI)
  fix w assume "w \<in> lang (Star (Atom P))"
  then obtain ws where ws: "w = concat ws" "set ws \<subseteq> {[c] |c. P c}" by auto
  from ws(2) have "list_all P (concat ws)" by (induction ws) auto
  with ws(1) show "w \<in> {w. list_all P w}" by simp
next
  fix w assume "w \<in> {w. list_all P w}"
  then have "w = concat (map (\<lambda>c. [c]) w) \<and> set (map (\<lambda>c. [c]) w) \<subseteq> lang (Atom P)"
    by (induction w) auto
  then show "w \<in> lang (Star (Atom P))" unfolding lang.simps(6) by blast
qed

lemma lang_Plus_Atom: "lang (Plus (Atom P)) = {w. w \<noteq> [] \<and> list_all P w}"
proof -
  have "lang (Plus (Atom P)) = {u @ v |u v. u \<in> lang (Atom P) \<and> v \<in> lang (Star (Atom P))}"
    by (simp add: Plus_def del: lang.simps(3,6))
  also have "\<dots> = {w. w \<noteq> [] \<and> list_all P w}"
    unfolding lang_Star_Atom
  proof (intro set_eqI iffI)
    fix w assume "w \<in> {u @ v |u v. u \<in> lang (Atom P) \<and> v \<in> {w. list_all P w}}"
    then show "w \<in> {w. w \<noteq> [] \<and> list_all P w}" by auto
  next
    fix w assume "w \<in> {w. w \<noteq> [] \<and> list_all P w}"
    then obtain c cs where "w = [c] @ cs" "P c" "list_all P cs" by (cases w) auto
    then show "w \<in> {u @ v |u v. u \<in> lang (Atom P) \<and> v \<in> {w. list_all P w}}"
      by (simp del: append.simps) blast
  qed
  finally show ?thesis .
qed

lemma mem_Seq: "w \<in> lang (Seq r s) \<longleftrightarrow> (\<exists>u v. w = u @ v \<and> u \<in> lang r \<and> v \<in> lang s)"
  by auto

lemma mem_digits: "w \<in> lang (Plus (Atom is_digit)) \<longleftrightarrow> digits w"
  by (simp add: lang_Plus_Atom digits_def)

lemma mem_spaces: "w \<in> lang (Plus (Atom is_space)) \<longleftrightarrow> w \<noteq> [] \<and> list_all is_space w"
  by (simp add: lang_Plus_Atom)

lemma mem_dot_digits:
  "w \<in> lang (Seq (Atom is_dot) (Plus (Atom is_digit))) \<longleftrightarrow> (\<exists>g. digits g \<and> w = CHR ''.'' # g)"
  unfolding mem_Seq mem_digits by (auto simp: is_dot_def)

lemma mem_Star_dot_digits:
  "w \<in> lang (Star (Seq (Atom is_dot) (Plus (Atom is_digit)))) \<longleftrightarrow>
     (\<exists>gs. (\<forall>g \<in> set gs. digits g) \<and> w = concat (map ((#) CHR ''.'') gs))"
proof
  assume "w \<in> lang (Star (Seq (Atom is_dot) (Plus (Atom is_digit))))"
  then obtain ws where ws: "w = concat ws"
      "set ws \<subseteq> lang (Seq (Atom is_dot) (Plus (Atom is_digit)))"
    unfolding lang.simps(6) by blast
  from ws(2) have "\<forall>x \<in> set ws. \<exists>g. digits g \<and> x = CHR ''.'' # g"
    using mem_dot_digits by blast
  then have "(\<forall>g \<in> set (map tl ws). digits g) \<and> concat ws = concat (map ((#) CHR ''.'') (map tl ws))"
    by (induction ws) auto
  with ws(1) show "\<exists>gs. (\<forall>g \<in> set gs. digits g) \<and> w = concat (map ((#) CHR ''.'') gs)"
    by blast
next
  assume "\<exists>gs. (\<forall>g \<in> set gs. digits g) \<and> w = concat (map ((#) CHR ''.'') gs)"
  then obtain gs where gs: "\<forall>g \<in> set gs. digits g" "w = concat (map ((#) CHR ''.'') gs)"
    by blast
  from gs(1) have "set (map ((#) CHR ''.'') gs) \<subseteq> lang (Seq (Atom is_dot) (Plus (Atom is_digit)))"
    using mem_dot_digits by auto
  with gs(2) show "w \<in> lang (Star (Seq (Atom is_dot) (Plus (Atom is_digit))))"
    unfolding lang.simps(6) by blast
qed

lemma join_dot: "join ''.'' (g # gs) = g @ concat (map ((#) CHR ''.'') gs)"
  by (induction gs arbitrary: g) simp_all

lemma mem_Opt_dot: "d \<in> lang (Opt (Atom is_dot)) \<longleftrightarrow> d = ''.'' \<or> d = []"
  by (auto simp: Opt_def is_dot_def)

lemma mem_numbering:
  "tok \<in> lang (Seq (Plus (Atom is_digit))
          (Seq (Star (Seq (Atom is_dot) (Plus (Atom is_digit)))) (Opt (Atom is_dot)))) \<longleftrightarrow>
     (\<exists>groups. groups \<noteq> [] \<and> (\<forall>g \<in> set groups. digits g) \<and>
        (tok = join ''.'' groups \<or> tok = join ''.'' groups @ ''.''))"
  (is "?L \<longleftrightarrow> ?R")
proof
  assume ?L
  then obtain g v where 1: "tok = g @ v" "digits g"
      "v \<in> lang (Seq (Star (Seq (Atom is_dot) (Plus (Atom is_digit)))) (Opt (Atom is_dot)))"
    unfolding mem_Seq [of tok] mem_digits by blast
  from 1(3) obtain a d where 2: "v = a @ d"
      "a \<in> lang (Star (Seq (Atom is_dot) (Plus (Atom is_digit))))" "d = ''.'' \<or> d = []"
    unfolding mem_Seq [of v] mem_Opt_dot by blast
  from 2(2) obtain gs where 3: "\<forall>g \<in> set gs. digits g" "a = concat (map ((#) CHR ''.'') gs)"
    unfolding mem_Star_dot_digits by blast
  have "tok = join ''.'' (g # gs) @ d" using 1(1) 2(1) 3(2) by (simp add: join_dot)
  with 2(3) have "tok = join ''.'' (g # gs) \<or> tok = join ''.'' (g # gs) @ ''.''" by auto
  moreover have "\<forall>x \<in> set (g # gs). digits x" using 1(2) 3(1) by simp
  ultimately show ?R by blast
next
  assume ?R
  then obtain groups where g: "groups \<noteq> []" "\<forall>g \<in> set groups. digits g"
      "tok = join ''.'' groups \<or> tok = join ''.'' groups @ ''.''" by blast
  then obtain g gs where gg: "groups = g # gs" by (cases groups) auto
  from g(3) obtain d where d: "tok = join ''.'' groups @ d" "d = ''.'' \<or> d = []" by auto
  have 1: "g \<in> lang (Plus (Atom is_digit))" using g(2) gg by (simp add: mem_digits)
  have 2: "concat (map ((#) CHR ''.'') gs) \<in> lang (Star (Seq (Atom is_dot) (Plus (Atom is_digit))))"
    unfolding mem_Star_dot_digits using g(2) gg by auto
  have 3: "d \<in> lang (Opt (Atom is_dot))" using d(2) by (simp add: mem_Opt_dot)
  from 2 3 have "concat (map ((#) CHR ''.'') gs) @ d \<in>
      lang (Seq (Star (Seq (Atom is_dot) (Plus (Atom is_digit)))) (Opt (Atom is_dot)))"
    unfolding mem_Seq by blast
  moreover have "tok = g @ concat (map ((#) CHR ''.'') gs) @ d"
    using d(1) gg by (simp add: join_dot)
  ultimately show ?L using 1 unfolding mem_Seq [of tok] by blast
qed

lemma mem_letter:
  "tok \<in> lang (Seq (Atom is_A_Z) (Atom is_dot)) \<longleftrightarrow> (\<exists>c. is_A_Z c \<and> tok = [c, CHR ''.''])"
  by (auto simp: is_dot_def)

lemma mem_token:
  "tok \<in> lang (Alt (Seq (Plus (Atom is_digit))
              (Seq (Star (Seq (Atom is_dot) (Plus (Atom is_digit)))) (Opt (Atom is_dot))))
            (Seq (Atom is_A_Z) (Atom is_dot))) \<longleftrightarrow> enumeration_token tok"
  unfolding lang.simps(4) Un_iff mem_numbering mem_letter enumeration_token_def digits_def ..

lemma mem_heading_pattern:
  "p \<in> lang heading_pattern \<longleftrightarrow>
     (\<exists>ws tok sp. p = ws @ tok @ sp \<and> list_all is_space ws \<and> enumeration_token tok \<and>
        sp \<noteq> [] \<and> list_all is_space sp)"
proof -
  have "p \<in> lang heading_pattern \<longleftrightarrow>
      (\<exists>ws v. p = ws @ v \<and> list_all is_space ws \<and>
         (\<exists>tok sp. v = tok @ sp \<and> enumeration_token tok \<and> sp \<noteq> [] \<and> list_all is_space sp))"
    unfolding heading_pattern_def mem_Seq [of p] mem_Seq [of _ "Alt _ _"] mem_token mem_spaces
      lang_Star_Atom mem_Collect_eq ..
  then show ?thesis by blast
qed

lemma re_match_heading_pattern: "re_match heading_pattern text \<longleftrightarrow> leading_enumeration text"
proof -
  have "re_match heading_pattern text \<longleftrightarrow>
      (\<exists>p q. text = p @ q \<and> (\<exists>ws tok sp. p = ws @ tok @ sp \<and> list_all is_space ws \<and>
         enumeration_token tok \<and> sp \<noteq> [] \<and> list_all is_space sp))"
    unfolding re_match_iff mem_heading_pattern ..
  also have "\<dots> \<longleftrightarrow> leading_enumeration text"
    unfolding leading_enumeration_def
  proof
    assume "\<exists>p q. text = p @ q \<and> (\<exists>ws tok sp. p = ws @ tok @ sp \<and> list_all is_space ws \<and>
         enumeration_token tok \<and> sp \<noteq> [] \<and> list_all is_space sp)"
    then obtain q ws tok sp where "text = (ws @ tok @ sp) @ q" "list_all is_space ws"
      "enumeration_token tok" "sp \<noteq> []" "list_all is_space sp" by blast
    then have "text = ws @ tok @ sp @ q \<and> list_all is_space ws \<and> enumeration_token tok \<and>
        sp \<noteq> [] \<and> list_all is_space sp" by simp
    then show "\<exists>ws tok sp rest. text = ws @ tok @ sp @ rest \<and> list_all is_space ws \<and>
        enumeration_token tok \<and> sp \<noteq> [] \<and> list_all is_space sp" by blast
  next
    assume "\<exists>ws tok sp rest. text = ws @ tok @ sp @ rest \<and> list_all is_space ws \<and>
        enumeration_token tok \<and> sp \<noteq> [] \<and> list_all is_space sp"
    then obtain ws tok sp rest where "text = ws @ tok @ sp @ rest" "list_all is_space ws"
      "enumeration_token tok" "sp \<noteq> []" "list_all is_space sp" by blast
    then have "text = (ws @ tok @ sp) @ rest \<and> (\<exists>ws' tok' sp'. ws @ tok @ sp = ws' @ tok' @ sp' \<and>
        list_all is_space ws' \<and> enumeration_token tok' \<and> sp' \<noteq> [] \<and> list_all is_space sp')"
      by auto
    then show "\<exists>p q. text = p @ q \<and> (\<exists>ws tok sp. p = ws @ tok @ sp \<and> list_all is_space ws \<and>
         enumeration_token tok \<and> sp \<noteq> [] \<and> list_all is_space sp)" by blast
  qed
  finally show ?thesis .
qed

section \<open>Scoring and candidacy\<close>

lemma take_prefix_iff: "take (length sub) s = sub \<longleftrightarrow> (\<exists>q. s = sub @ q)"
  by (metis append_eq_conv_conj append_take_drop_id)

lemma contains_iff: "contains sub s \<longleftrightarrow> has_substring sub s"
proof (induction s)
  case Nil
  show ?case by (auto simp: has_substring_def)
next
  case (Cons c cs)
  have "has_substring sub (c # cs) \<longleftrightarrow> (\<exists>q. c # cs = sub @ q) \<or> has_substring sub cs"
    unfolding has_substring_def
  proof
    assume "\<exists>p q. c # cs = p @ sub @ q"
    then obtain p q where pq: "c # cs = p @ sub @ q" by blast
    show "(\<exists>q. c # cs = sub @ q) \<or> (\<exists>p q. cs = p @ sub @ q)"
    proof (cases p)
      case Nil
      with pq show ?thesis by auto
    next
      case (Cons x xs)
      with pq have "cs = xs @ sub @ q" by simp
      then show ?thesis by blast
    qed
  next
    assume "(\<exists>q. c # cs = sub @ q) \<or> (\<exists>p q. cs = p @ sub @ q)"
    then show "\<exists>p q. c # cs = p @ sub @ q"
    proof
      assume "\<exists>q. c # cs = sub @ q"
      then obtain q where "c # cs = [] @ sub @ q" by auto
      then show ?thesis by blast
    next
      assume "\<exists>p q. cs = p @ sub @ q"
      then obtain p q where "c # cs = (c # p) @ sub @ q" by auto
      then show ?thesis by blast
    qed
  qed
  then show ?case using Cons.IH by (simp only: contains.simps take_prefix_iff)
qed

lemma block_score_criteria: "block_score body_size b = criteria_score body_size b"
  by (simp add: block_score_def criteria_score_def Let_def contains_iff re_match_heading_pattern)

text \<open>
  C1. The score of a fragment is the sum of five independent criteria: 2 when the font size
  exceeds the body size by more than 1, 1 when the lower-cased font name has the substring
  \<^verbatim>\<open>bold\<close>, 5 when the text has a leading enumeration, 1 when the text has fewer than 15
  whitespace-separated words, and 1 when the text is upper case (\<^verbatim>\<open>isupper\<close>) and longer
  than 2 characters. The candidates are, in stream order, the fragments that are not
  skipped as the title and score at least 4; a fragment on page 1 with the text of the
  title is skipped and is never a candidate.
\<close>

theorem heading_candidacy:
  "block_score body_size b = criteria_score body_size b \<and>
   candidates_loop ti body_size [] blocks =
     filter (\<lambda>b. \<not> is_title ti b \<and> 4 \<le> criteria_score body_size b) blocks \<and>
   (is_title ti b \<longleftrightarrow> (\<exists>t. ti = Some t \<and> f_text b = t_text t \<and> page b = 1)) \<and>
   (is_title ti b \<longrightarrow> b \<notin> set (candidates_loop ti body_size [] blocks))"
proof (intro conjI)
  show "block_score body_size b = criteria_score body_size b" by (rule block_score_criteria)
  show "candidates_loop ti body_size [] blocks =
     filter (\<lambda>b. \<not> is_title ti b \<and> 4 \<le> criteria_score body_size b) blocks"
    by (simp add: candidates_loop_filter block_score_criteria)
  show "is_title ti b \<longleftrightarrow> (\<exists>t. ti = Some t \<and> f_text b = t_text t \<and> page b = 1)"
    by (auto simp: is_title_def split: option.splits)
  show "is_title ti b \<longrightarrow> b \<notin> set (candidates_loop ti body_size [] blocks)"
    by (simp add: candidates_loop_filter)
qed

lemma worked_example_candidates:
  "candidates_loop (Some \<lparr>t_text = ''1. Background'', t_page = 1\<rparr>) 12 [] worked_example =
     [frag ''1.1 Detail'' 16 ''Helvetica-Bold'' 1 120]"
  by (simp add: worked_example_def frag_def classify_eval string_eval)

theorem heading_candidacy_witness:
  "is_title (Some \<lparr>t_text = ''1. Background'', t_page = 1\<rparr>)
     (frag ''1. Background'' 18 ''Helvetica-Bold'' 1 50) \<and>
   frag ''1. Background'' 18 ''Helvetica-Bold'' 1 50 \<notin>
     set (candidates_loop (Some \<lparr>t_text = ''1. Background'', t_page = 1\<rparr>) 12 [] worked_example) \<and>
   criteria_score 12 (frag ''1. Background'' 18 ''Helvetica-Bold'' 1 50) = 9 \<and>
   filter (\<lambda>b. \<not> is_title (Some \<lparr>t_text = ''1. Background'', t_page = 1\<rparr>) b \<and>
                4 \<le> criteria_score 12 b) worked_example =
     [frag ''1.1 Detail'' 16 ''Helvetica-Bold'' 1 120]"
proof -
  let ?ti = "Some \<lparr>t_text = ''1. Background'', t_page = 1\<rparr>"
  let ?b = "frag ''1. Background'' 18 ''Helvetica-Bold'' 1 50"
  note t = heading_candidacy [of 12 ?b ?ti worked_example]
  have a: "is_title ?ti ?b" by (simp add: is_title_def frag_def)
  have b: "?b \<notin> set (candidates_loop ?ti 12 [] worked_example)"
    by (rule t [THEN conjunct2, THEN conjunct2, THEN conjunct2, THEN mp, OF a])
  have "block_score 12 ?b = 9" by (simp add: frag_def classify_eval string_eval)
  then have c: "criteria_score 12 ?b = 9" using t by simp
  have d: "filter (\<lambda>b. \<not> is_title ?ti b \<and> 4 \<le> criteria_score 12 b) worked_example =
     [frag ''1.1 Detail'' 16 ''Helvetica-Bold'' 1 120]"
    using t worked_example_candidates by simp
  from a b c d show ?thesis by blast
qed

text \<open>
  C6 (amended). On the worked example with body size 12, the fragment \<^verbatim>\<open>1. Background\<close> has
  the largest font size on page 1, so it is the title and is skipped. The only heading is
  \<^verbatim>\<open>1.1 Detail\<close>, of level \<^verbatim>\<open>H1\<close>, and the only section is that of \<^verbatim>\<open>1.1 Detail\<close> with the
  content \<^verbatim>\<open>more body\<close>.
\<close>

theorem worked_example_result:
  "get_body_text_style unique_only worked_example = Inr (12, []) \<and>
   identify_and_classify_headings worked_example 12 =
     Inr ([\<lparr>level = ''H1'', h_text = ''1.1 Detail'', h_page = 1, h_y_pos = 120\<rparr>],
          Some \<lparr>t_text = ''1. Background'', t_page = 1\<rparr>) \<and>
   group_text_into_sections worked_example
       [\<lparr>level = ''H1'', h_text = ''1.1 Detail'', h_page = 1, h_y_pos = 120\<rparr>] =
     [\<lparr>heading_text = ''1.1 Detail'', heading_level = ''H1'', s_page = 1,
        s_content = ''more body''\<rparr>]"
proof (intro conjI)
  show "get_body_text_style unique_only worked_example = Inr (12, [])"
    by (simp add: worked_example_def frag_def get_body_text_style_def statistics_mode_def
        Counter_def most_common1_def)
  show "identify_and_classify_headings worked_example 12 =
     Inr ([\<lparr>level = ''H1'', h_text = ''1.1 Detail'', h_page = 1, h_y_pos = 120\<rparr>],
          Some \<lparr>t_text = ''1. Background'', t_page = 1\<rparr>)"
    by (simp add: worked_example_def frag_def classify_eval string_eval)
  show "group_text_into_sections worked_example
       [\<lparr>level = ''H1'', h_text = ''1.1 Detail'', h_page = 1, h_y_pos = 120\<rparr>] =
     [\<lparr>heading_text = ''1.1 Detail'', heading_level = ''H1'', s_page = 1,
        s_content = ''more body''\<rparr>]"
    by (simp add: group_sections_map worked_example_def frag_def section_eval)
qed

text \<open>
  C6 as stated fails: the headings of the worked example are not the two headings
  \<^verbatim>\<open>1. Background\<close> (H1) and \<^verbatim>\<open>1.1 Detail\<close> (H2).
\<close>

theorem worked_example_counterexample:
  "map_sum id fst (identify_and_classify_headings worked_example 12) \<noteq>
     Inr [\<lparr>level = ''H1'', h_text = ''1. Background'', h_page = 1, h_y_pos = 50\<rparr>,
          \<lparr>level = ''H2'', h_text = ''1.1 Detail'', h_page = 1, h_y_pos = 120\<rparr>]"
  by (simp add: worked_example_def frag_def classify_eval string_eval)

end
